theory Spec2Isabelle
  imports Main "HOL-Library.Word" "HOL-Library.Sublist"
begin

section \<open>JavaScript strings\<close>

text \<open>
  A JavaScript string is a sequence of UTF-16 code units. The services of
  \<^verbatim>\<open>src/services/geminiService.ts\<close> work on such strings through
  \<^verbatim>\<open>String.prototype.match\<close>, \<^verbatim>\<open>replace\<close> and \<^verbatim>\<open>trim\<close>;
  all three count code units.
\<close>

type_synonym jschar = "16 word"
type_synonym jsstring = "jschar list"

text \<open>An ASCII literal of the source, as code units.\<close>

definition js :: "string \<Rightarrow> jsstring" where
  "js s = map of_char s"

text \<open>
  ECMAScript's \<^verbatim>\<open>WhiteSpace\<close> and \<^verbatim>\<open>LineTerminator\<close> code points: the set that
  \<^verbatim>\<open>\s\<close> matches in a regular expression without the unicode flag and that
  \<^verbatim>\<open>trim\<close> strips.
\<close>

definition is_space :: "jschar \<Rightarrow> bool" where
  "is_space c \<longleftrightarrow>
     c = 0x09 \<or> c = 0x0A \<or> c = 0x0B \<or> c = 0x0C \<or> c = 0x0D \<or> c = 0x20 \<or>
     c = 0xA0 \<or> c = 0x1680 \<or> (0x2000 \<le> c \<and> c \<le> 0x200A) \<or>
     c = 0x2028 \<or> c = 0x2029 \<or> c = 0x202F \<or> c = 0x205F \<or> c = 0x3000 \<or>
     c = 0xFEFF"

definition trim :: "jsstring \<Rightarrow> jsstring" where
  "trim s = rev (dropWhile is_space (rev (dropWhile is_space s)))"

text \<open>
  \<^verbatim>\<open>hay.indexOf(needle)\<close>: the least index at which \<open>needle\<close> starts, counted
  from \<open>i\<close> for the suffix \<open>hay\<close>.
\<close>

fun index_from :: "jsstring \<Rightarrow> nat \<Rightarrow> jsstring \<Rightarrow> nat option" where
  "index_from needle i [] = (if needle = [] then Some i else None)"
| "index_from needle i (c # cs) =
     (if prefix needle (c # cs) then Some i else index_from needle (Suc i) cs)"

text \<open>
  \<^verbatim>\<open>hay.replace(needle, repl)\<close> with a string pattern: only the first occurrence
  is replaced, and a string without an occurrence is returned as it is. The source
  calls it with the replacement \<^verbatim>\<open>''\<close>, which holds no \<^verbatim>\<open>$\<close> pattern, so the
  replacement is inserted literally.
\<close>

definition replace_first :: "jsstring \<Rightarrow> jsstring \<Rightarrow> jsstring \<Rightarrow> jsstring" where
  "replace_first needle repl hay =
     (case index_from needle 0 hay of
        None \<Rightarrow> hay
      | Some i \<Rightarrow> take i hay @ repl @ drop (i + length needle) hay)"

section \<open>The regular expression of the evidence block\<close>

text \<open>
  The source matches \<^verbatim>\<open>/```json\s*([\s\S]*?)\s*```/\<close>. The pattern is a sequence
  of literals and starred character classes, so the matcher below covers exactly that
  fragment, with ECMAScript's backtracking order: a greedy star first tries one more
  character and only then the rest of the pattern, a lazy star first tries the rest of
  the pattern and only then one more character. A successful match is the list of the
  lengths each piece consumed.
\<close>

datatype quant = Greedy | Lazy

datatype cls = Space | AnyChar

datatype piece = Lit jsstring | Star quant cls

fun in_cls :: "cls \<Rightarrow> jschar \<Rightarrow> bool" where
  "in_cls Space c = is_space c"
| "in_cls AnyChar c = True"

fun match_pieces :: "piece list \<Rightarrow> jsstring \<Rightarrow> nat list option"
  and star :: "quant \<Rightarrow> cls \<Rightarrow> piece list \<Rightarrow> nat \<Rightarrow> jsstring \<Rightarrow> nat list option"
where
  "match_pieces [] s = Some []"
| "match_pieces (Lit l # ps) s =
     (if prefix l s then map_option (Cons (length l)) (match_pieces ps (drop (length l) s))
      else None)"
| "match_pieces (Star q c # ps) s = star q c ps 0 s"
| "star Lazy c ps k s =
     (case match_pieces ps s of
        Some r \<Rightarrow> Some (k # r)
      | None \<Rightarrow>
          (case s of
             [] \<Rightarrow> None
           | x # xs \<Rightarrow> if in_cls c x then star Lazy c ps (Suc k) xs else None))"
| "star Greedy c ps k s =
     (case (case s of
              [] \<Rightarrow> None
            | x # xs \<Rightarrow> if in_cls c x then star Greedy c ps (Suc k) xs else None) of
        Some r \<Rightarrow> Some r
      | None \<Rightarrow> map_option (Cons k) (match_pieces ps s))"

text \<open>
  \<^verbatim>\<open>RegExp.prototype.exec\<close> without the global flag: the match is tried at index
  0, 1, ... up to the length of the string, and the first index with a match wins.
\<close>

fun exec_from :: "piece list \<Rightarrow> nat \<Rightarrow> jsstring \<Rightarrow> (nat \<times> nat list) option" where
  "exec_from ps i [] = map_option (Pair i) (match_pieces ps [])"
| "exec_from ps i (c # cs) =
     (case match_pieces ps (c # cs) of
        Some lens \<Rightarrow> Some (i, lens)
      | None \<Rightarrow> exec_from ps (Suc i) cs)"

definition fence_open :: jsstring where
  "fence_open = js ''```json''"

definition fence_close :: jsstring where
  "fence_close = js ''```''"

definition jsonBlockRegex :: "piece list" where
  "jsonBlockRegex =
     [Lit fence_open, Star Greedy Space, Star Lazy AnyChar, Star Greedy Space, Lit fence_close]"

text \<open>
  The match array of \<^verbatim>\<open>fullText.match(jsonBlockRegex)\<close>: its index, element 0
  (the whole match) and element 1 (the capture group, the third piece of the pattern).
  A match of this pattern has five lengths (lemma \<open>exec_jsonBlockRegex_lengths\<close>
  below), so the indices read here are in range.
\<close>

record rx_match =
  m_index :: nat
  m_whole :: jsstring
  m_group1 :: jsstring

definition match_json_block :: "jsstring \<Rightarrow> rx_match option" where
  "match_json_block s =
     (case exec_from jsonBlockRegex 0 s of
        None \<Rightarrow> None
      | Some (i, lens) \<Rightarrow>
          Some \<lparr> m_index = i,
                 m_whole = take (sum_list lens) (drop i s),
                 m_group1 = take (lens ! 2) (drop (i + lens ! 0 + lens ! 1) s) \<rparr>)"

text \<open>
  What a successful match means, without the order of the search: the lengths \<open>lens\<close>
  cut a prefix of \<open>s\<close> into one segment per piece, a literal's segment is the
  literal, and a star's segment lies in its class.
\<close>

fun fits :: "piece list \<Rightarrow> jsstring \<Rightarrow> nat list \<Rightarrow> bool" where
  "fits [] s lens = (lens = [])"
| "fits (Lit l # ps) s (k # lens) = (k = length l \<and> prefix l s \<and> fits ps (drop k s) lens)"
| "fits (Star q c # ps) s (k # lens) =
     (k \<le> length s \<and> (\<forall>x \<in> set (take k s). in_cls c x) \<and> fits ps (drop k s) lens)"
| "fits (p # ps) s [] = False"

section \<open>JSON.parse\<close>

text \<open>
  \<^verbatim>\<open>JSON.parse\<close> belongs to the JavaScript runtime, not to the repository. It is
  modelled from ECMA-404 and ECMA-262 (JSON.parse without a reviver): a text is
  whitespace, one value, whitespace; the four whitespace characters are tab, line
  feed, carriage return and space; a syntax error is the exception the source
  catches, here \<open>None\<close>. A number is kept as its lexeme (the IEEE double it denotes
  is a function of the lexeme), and an object keeps its members in source order.
\<close>

datatype json =
    JNull
  | JBool bool
  | JNumber jsstring
  | JString jsstring
  | JArray "json list"
  | JObject "(jsstring \<times> json) list"

datatype token =
    TLBracket | TRBracket | TLBrace | TRBrace | TColon | TComma
  | TString jsstring | TNumber jsstring | TTrue | TFalse | TNull

definition is_json_ws :: "jschar \<Rightarrow> bool" where
  "is_json_ws c \<longleftrightarrow> c = 0x09 \<or> c = 0x0A \<or> c = 0x0D \<or> c = 0x20"

definition is_digit :: "jschar \<Rightarrow> bool" where
  "is_digit c \<longleftrightarrow> 0x30 \<le> c \<and> c \<le> 0x39"

definition hex_digit :: "jschar \<Rightarrow> jschar option" where
  "hex_digit c =
     (if 0x30 \<le> c \<and> c \<le> 0x39 then Some (c - 0x30)
      else if 0x41 \<le> c \<and> c \<le> 0x46 then Some (c - 0x37)
      else if 0x61 \<le> c \<and> c \<le> 0x66 then Some (c - 0x57)
      else None)"

definition hex4 :: "jschar \<Rightarrow> jschar \<Rightarrow> jschar \<Rightarrow> jschar \<Rightarrow> jschar option" where
  "hex4 a b c d =
     (case (hex_digit a, hex_digit b, hex_digit c, hex_digit d) of
        (Some w, Some x, Some y, Some z) \<Rightarrow> Some (((w * 16 + x) * 16 + y) * 16 + z)
      | _ \<Rightarrow> None)"

text \<open>The single-character escapes: \<^verbatim>\<open>\" \\ \/ \b \f \n \r \t\<close>.\<close>

definition escape :: "jschar \<Rightarrow> jschar option" where
  "escape e =
     (if e = 0x22 then Some 0x22
      else if e = 0x5C then Some 0x5C
      else if e = 0x2F then Some 0x2F
      else if e = 0x62 then Some 0x08
      else if e = 0x66 then Some 0x0C
      else if e = 0x6E then Some 0x0A
      else if e = 0x72 then Some 0x0D
      else if e = 0x74 then Some 0x09
      else None)"

text \<open>
  The characters of a string after its opening quote, up to the closing quote:
  the decoded string (collected in reverse in \<open>acc\<close>) and the text after it.
  An unescaped code unit below U+0020 is a syntax error.
\<close>

fun lex_string :: "jsstring \<Rightarrow> jsstring \<Rightarrow> (jsstring \<times> jsstring) option" where
  "lex_string acc [] = None"
| "lex_string acc (c # cs) =
     (if c = 0x22 then Some (rev acc, cs)
      else if c = 0x5C then
        (case cs of
           [] \<Rightarrow> None
         | e # es \<Rightarrow>
             if e = 0x75 then
               (case es of
                  h1 # h2 # h3 # h4 # r \<Rightarrow>
                    (case hex4 h1 h2 h3 h4 of
                       None \<Rightarrow> None
                     | Some w \<Rightarrow> lex_string (w # acc) r)
                | _ \<Rightarrow> None)
             else
               (case escape e of
                  None \<Rightarrow> None
                | Some w \<Rightarrow> lex_string (w # acc) es))
      else if c < 0x20 then None
      else lex_string (c # acc) cs)"

text \<open>
  A number: an optional minus, an integer part without a leading zero, an optional
  fraction, an optional exponent. The result is the lexeme and the text after it.
\<close>

definition lex_digits :: "jsstring \<Rightarrow> (jsstring \<times> jsstring) option" where
  "lex_digits s =
     (if takeWhile is_digit s = [] then None
      else Some (takeWhile is_digit s, dropWhile is_digit s))"

definition lex_int :: "jsstring \<Rightarrow> (jsstring \<times> jsstring) option" where
  "lex_int s =
     (case s of
        [] \<Rightarrow> None
      | d # ds \<Rightarrow>
          if d = 0x30 then Some ([d], ds)
          else if is_digit d then Some (d # takeWhile is_digit ds, dropWhile is_digit ds)
          else None)"

definition lex_frac :: "jsstring \<Rightarrow> (jsstring \<times> jsstring) option" where
  "lex_frac s =
     (case s of
        c # cs \<Rightarrow>
          if c = 0x2E then
            (case lex_digits cs of None \<Rightarrow> None | Some (ds, r) \<Rightarrow> Some (c # ds, r))
          else Some ([], s)
      | [] \<Rightarrow> Some ([], s))"

definition lex_exp :: "jsstring \<Rightarrow> (jsstring \<times> jsstring) option" where
  "lex_exp s =
     (case s of
        c # cs \<Rightarrow>
          if c = 0x65 \<or> c = 0x45 then
            (case cs of
               g # gs \<Rightarrow>
                 if g = 0x2B \<or> g = 0x2D then
                   (case lex_digits gs of
                      None \<Rightarrow> None
                    | Some (ds, r) \<Rightarrow> Some (c # g # ds, r))
                 else
                   (case lex_digits cs of
                      None \<Rightarrow> None
                    | Some (ds, r) \<Rightarrow> Some (c # ds, r))
             | [] \<Rightarrow> None)
          else Some ([], s)
      | [] \<Rightarrow> Some ([], s))"

definition lex_number :: "jsstring \<Rightarrow> (jsstring \<times> jsstring) option" where
  "lex_number s =
     (let (sign, s1) = (case s of
                          c # cs \<Rightarrow> if c = 0x2D then ([c], cs) else ([], s)
                        | [] \<Rightarrow> ([], s))
      in case lex_int s1 of
           None \<Rightarrow> None
         | Some (ip, s2) \<Rightarrow>
             (case lex_frac s2 of
                None \<Rightarrow> None
              | Some (fp, s3) \<Rightarrow>
                  (case lex_exp s3 of
                     None \<Rightarrow> None
                   | Some (ep, s4) \<Rightarrow> Some (sign @ ip @ fp @ ep, s4))))"

lemma lex_string_shorter: "lex_string acc s = Some (str, r) \<Longrightarrow> length r < length s"
proof (induction s arbitrary: acc rule: length_induct)
  case (1 s)
  note IH = "1.IH" [rule_format]
  show ?case
  proof (cases s)
    case Nil
    with "1.prems" show ?thesis by simp
  next
    case (Cons c cs)
    show ?thesis
    proof (cases "c = 0x22")
      case True
      with "1.prems" Cons show ?thesis by simp
    next
      case nq: False
      show ?thesis
      proof (cases "c = 0x5C")
        case False
        with nq "1.prems" Cons have "lex_string (c # acc) cs = Some (str, r)"
          by (simp split: if_splits)
        from IH [OF _ this] Cons show ?thesis by simp
      next
        case True
        with "1.prems" Cons obtain e es where cs: "cs = e # es"
          by (cases cs) simp_all
        show ?thesis
        proof (cases "e = 0x75")
          case False
          with True "1.prems" Cons cs obtain w
            where "lex_string (w # acc) es = Some (str, r)"
            by (auto split: option.splits)
          from IH [OF _ this] Cons cs show ?thesis by simp
        next
          case u: True
          with True "1.prems" Cons cs obtain h1 h2 h3 h4 r' w
            where es: "es = h1 # h2 # h3 # h4 # r'"
              and "lex_string (w # acc) r' = Some (str, r)"
            by (auto split: list.splits option.splits)
          from IH [OF _ this(2)] Cons cs es show ?thesis by simp
        qed
      qed
    qed
  qed
qed

lemma lex_digits_shorter: "lex_digits s = Some (ds, r) \<Longrightarrow> length r \<le> length s"
  by (auto simp: lex_digits_def length_dropWhile_le split: if_splits)

lemma lex_int_shorter: "lex_int s = Some (ds, r) \<Longrightarrow> length r < length s"
  by (auto simp: lex_int_def length_dropWhile_le less_Suc_eq_le split: list.splits if_splits)

lemma lex_frac_shorter: "lex_frac s = Some (ds, r) \<Longrightarrow> length r \<le> length s"
  by (auto simp: lex_frac_def split: list.splits if_splits option.splits
      dest!: lex_digits_shorter)

lemma lex_exp_shorter: "lex_exp s = Some (ds, r) \<Longrightarrow> length r \<le> length s"
  by (auto simp: lex_exp_def split: list.splits if_splits option.splits
      dest!: lex_digits_shorter)

lemma lex_number_shorter:
  assumes "lex_number s = Some (n, r)"
  shows "length r < length s"
proof -
  obtain sign s1 where s1: "(case s of
                          c # cs \<Rightarrow> if c = 0x2D then ([c], cs) else ([], s)
                        | [] \<Rightarrow> ([], s)) = (sign, s1)"
    by fastforce
  then have le1: "length s1 \<le> length s"
    by (auto split: list.splits if_splits)
  from assms s1 obtain ip s2 fp s3 ep where
    "lex_int s1 = Some (ip, s2)" "lex_frac s2 = Some (fp, s3)" "lex_exp s3 = Some (ep, r)"
    by (auto simp: lex_number_def split: option.splits)
  then have "length s2 < length s1" "length s3 \<le> length s2" "length r \<le> length s3"
    using lex_int_shorter lex_frac_shorter lex_exp_shorter by blast+
  with le1 show ?thesis by linarith
qed

text \<open>The tokens of a JSON text; \<open>None\<close> when a character starts no token.\<close>

function tokens :: "jsstring \<Rightarrow> token list option" where
  "tokens [] = Some []"
| "tokens (c # cs) =
     (if is_json_ws c then tokens cs
      else if c = 0x5B then map_option (Cons TLBracket) (tokens cs)
      else if c = 0x5D then map_option (Cons TRBracket) (tokens cs)
      else if c = 0x7B then map_option (Cons TLBrace) (tokens cs)
      else if c = 0x7D then map_option (Cons TRBrace) (tokens cs)
      else if c = 0x3A then map_option (Cons TColon) (tokens cs)
      else if c = 0x2C then map_option (Cons TComma) (tokens cs)
      else if c = 0x22 then
        (case lex_string [] cs of
           None \<Rightarrow> None
         | Some (str, r) \<Rightarrow> map_option (Cons (TString str)) (tokens r))
      else if c = 0x2D \<or> is_digit c then
        (case lex_number (c # cs) of
           None \<Rightarrow> None
         | Some (n, r) \<Rightarrow> map_option (Cons (TNumber n)) (tokens r))
      else if prefix (js ''true'') (c # cs) then map_option (Cons TTrue) (tokens (drop 3 cs))
      else if prefix (js ''false'') (c # cs) then map_option (Cons TFalse) (tokens (drop 4 cs))
      else if prefix (js ''null'') (c # cs) then map_option (Cons TNull) (tokens (drop 3 cs))
      else None)"
  by pat_completeness auto
termination
proof (relation "measure length")
  fix c cs x2 x y
  assume "lex_string [] cs = Some x2" "(x, y) = x2"
  then show "(y, c # cs) \<in> measure length"
    using lex_string_shorter [of "[]" cs x y] by simp
next
  fix c cs x2 x y
  assume "lex_number (c # cs) = Some x2" "(x, y) = x2"
  then show "(y, c # cs) \<in> measure length"
    using lex_number_shorter [of "c # cs" x y] by simp
qed simp_all

text \<open>
  The parser reads the tokens one by one, with the open arrays and objects on a stack.
  A frame holds what its container has collected so far, in reverse; an object frame
  also holds the key whose value is being read.
\<close>

datatype frame = FArr "json list" | FObj "(jsstring \<times> json) list" "jsstring option"

datatype pmode =
    PValue        \<comment> \<open>a value must start\<close>
  | PArrFirst     \<comment> \<open>after \<^verbatim>\<open>[\<close>: a value or \<^verbatim>\<open>]\<close>\<close>
  | PObjFirst     \<comment> \<open>after \<^verbatim>\<open>{\<close>: a key or \<^verbatim>\<open>}\<close>\<close>
  | PKey          \<comment> \<open>after a comma in an object: a key\<close>
  | PColon        \<comment> \<open>after a key: the colon\<close>
  | PAfter        \<comment> \<open>after a value in a container: a comma or the closer\<close>
  | PDone json    \<comment> \<open>the top-level value is complete\<close>

type_synonym pstate = "frame list \<times> pmode"

fun complete :: "json \<Rightarrow> frame list \<Rightarrow> pstate option" where
  "complete v [] = Some ([], PDone v)"
| "complete v (FArr vs # st) = Some (FArr (v # vs) # st, PAfter)"
| "complete v (FObj kvs (Some k) # st) = Some (FObj ((k, v) # kvs) None # st, PAfter)"
| "complete v (FObj kvs None # st) = None"

fun begin_value :: "frame list \<Rightarrow> token \<Rightarrow> pstate option" where
  "begin_value st TLBracket = Some (FArr [] # st, PArrFirst)"
| "begin_value st TLBrace = Some (FObj [] None # st, PObjFirst)"
| "begin_value st (TString s) = complete (JString s) st"
| "begin_value st (TNumber n) = complete (JNumber n) st"
| "begin_value st TTrue = complete (JBool True) st"
| "begin_value st TFalse = complete (JBool False) st"
| "begin_value st TNull = complete JNull st"
| "begin_value st _ = None"

fun close_array :: "frame list \<Rightarrow> pstate option" where
  "close_array (FArr vs # st) = complete (JArray (rev vs)) st"
| "close_array _ = None"

fun close_object :: "frame list \<Rightarrow> pstate option" where
  "close_object (FObj kvs None # st) = complete (JObject (rev kvs)) st"
| "close_object _ = None"

fun read_key :: "frame list \<Rightarrow> token \<Rightarrow> pstate option" where
  "read_key (FObj kvs None # st) (TString k) = Some (FObj kvs (Some k) # st, PColon)"
| "read_key _ _ = None"

fun after_value :: "frame list \<Rightarrow> token \<Rightarrow> pstate option" where
  "after_value (FArr vs # st) TComma = Some (FArr vs # st, PValue)"
| "after_value (FObj kvs k # st) TComma = Some (FObj kvs k # st, PKey)"
| "after_value st TRBracket = close_array st"
| "after_value st TRBrace = close_object st"
| "after_value _ _ = None"

fun step :: "pstate \<Rightarrow> token \<Rightarrow> pstate option" where
  "step (st, PValue) t = begin_value st t"
| "step (st, PArrFirst) t = (if t = TRBracket then close_array st else begin_value st t)"
| "step (st, PObjFirst) t = (if t = TRBrace then close_object st else read_key st t)"
| "step (st, PKey) t = read_key st t"
| "step (st, PColon) t = (if t = TColon then Some (st, PValue) else None)"
| "step (st, PAfter) t = after_value st t"
| "step (st, PDone v) t = None"

fun run :: "pstate \<Rightarrow> token list \<Rightarrow> pstate option" where
  "run s [] = Some s"
| "run s (t # ts) = (case step s t of None \<Rightarrow> None | Some s' \<Rightarrow> run s' ts)"

definition JSON_parse :: "jsstring \<Rightarrow> json option" where
  "JSON_parse s =
     (case tokens s of
        None \<Rightarrow> None
      | Some ts \<Rightarrow>
          (case run ([], PValue) ts of
             Some ([], PDone v) \<Rightarrow> Some v
           | _ \<Rightarrow> None))"

section \<open>The data model of \<^verbatim>\<open>src/types.ts\<close>\<close>

datatype ModelMode = Fast | Web | Deep

datatype Role = User | Model

text \<open>
  \<^verbatim>\<open>Attachment.data\<close> is what \<^verbatim>\<open>fileToBase64\<close> resolves to,
  \<^verbatim>\<open>result.split(',')[1]\<close>: a string, or \<^verbatim>\<open>undefined\<close> (here \<open>None\<close>) when the
  array has no second element.
\<close>

record Attachment =
  att_name :: jsstring
  att_mimeType :: jsstring
  att_data :: "jsstring option"

record WebSource =
  uri :: jsstring
  title :: jsstring

record GroundingChunk =
  web :: "WebSource option"

text \<open>
  The evidence of a turn is the parsed JSON array itself: the source assigns
  \<^verbatim>\<open>evidence = parsed\<close> without looking at the elements.
\<close>

record Message =
  msg_id :: jsstring
  msg_role :: Role
  msg_text :: jsstring
  msg_attachments :: "Attachment list option"
  msg_groundingChunks :: "GroundingChunk list option"
  msg_evidence :: "json list option"
  msg_timestamp :: int

section \<open>The model API boundary\<close>

datatype Part = PText jsstring | PInlineData jsstring "jsstring option"

record Content =
  role :: Role
  parts :: "Part list"

datatype Tool = GoogleSearch

record Config =
  systemInstruction :: jsstring
  tools :: "Tool list option"

record Request =
  model :: jsstring
  contents :: "Content list"
  config :: Config

record GroundingMetadata =
  groundingChunks :: "GroundingChunk list option"

record Candidate =
  groundingMetadata :: "GroundingMetadata option"

record ApiResponse =
  resp_text :: "jsstring option"
  candidates :: "Candidate list option"

text \<open>
  The client \<^verbatim>\<open>ai.models.generateContent\<close> is a parameter of the model: a function
  from the request to the rejection of the promise (\<open>Inl\<close>) or the response.
\<close>

type_synonym 'e Api = "Request \<Rightarrow> 'e + ApiResponse"

text \<open>A stand-in for the client in the examples: it answers every request with \<open>r\<close>.\<close>

definition answers :: "ApiResponse \<Rightarrow> unit Api" where
  "answers r request = Inr r"

text \<open>What is written to the console: the level and the message (the first argument).\<close>

datatype ConsoleCall = ConsoleWarn jsstring | ConsoleError jsstring

section \<open>\<^verbatim>\<open>getSystemInstruction\<close>\<close>

definition base_instruction :: string where
  \<open>base_instruction = concat
    [''You are a rigorous AI Research Analyst. Your core directive is **EVIDENCE-BASED SYNTHESIS**.\<newline>'',
     ''\<newline>'']\<close>

definition fast_instruction :: string where
  \<open>fast_instruction = concat
    [''\<newline>'',
     ''**MODE: FAST ANALYSIS**\<newline>'',
     ''1. **PDF ANALYSIS**: If PDFs are provided, prioritize analyzing them and cite Page Numbers where possible.\<newline>'',
     ''2. **GENERAL KNOWLEDGE**: For general queries without documents, provide helpful, accurate answers based on your internal knowledge.\<newline>'',
     ''3. **TONE**: Professional, concise, and direct.\<newline>'',
     ''4. **FORMAT**: Use Markdown for headers and lists.\<newline>'',
     ''     '']\<close>

definition strict_instruction :: string where
  \<open>strict_instruction = concat
    [''\<newline>'',
     ''**CRITICAL RULES:**\<newline>'',
     ''1.  **NO UNSOURCED CLAIMS**: Every single claim you make must be backed by a specific source (URL or PDF Page). If you cannot find a source, DO NOT state the claim.\<newline>'',
     ''2.  **PDF ANALYSIS**: When analyzing PDFs, you MUST cite the specific Page Number (e.g., "Page 12").\<newline>'',
     ''3.  **WEB SEARCH**: Use Google Search to verify facts. Cite the specific URL.\<newline>'',
     ''\<newline>'',
     ''**OUTPUT FORMAT:**\<newline>'',
     ''1.  Provide your analytical response in clear Markdown. Use inline citations like [1], [Page 5].\<newline>'',
     ''2.  **EVIDENCE GRAPH**: At the very end of your response, you MUST output a JSON block wrapped in ```json```. This block represents the "Evidence Graph".\<newline>'',
     ''    *   It must be an array of objects.\<newline>'',
     ''    *   Each object must have:\<newline>'',
     ''        *   `claim`: A concise string of the fact being stated.\<newline>'',
     ''        *   `sourceType`: "web" or "pdf".\<newline>'',
     ''        *   `sourceName`: The filename (for PDFs) or Website Title (for Web).\<newline>'',
     ''        *   `sourceReference`: The full URL (for Web) or "Page X" (for PDFs).\<newline>'',
     ''\<newline>'',
     ''Example JSON Structure:\<newline>'',
     ''```json\<newline>'',
     ''[\<newline>'',
     ''  {\<newline>'',
     ''    "claim": "The company revenue grew by 20% in Q3.",\<newline>'',
     ''    "sourceType": "pdf",\<newline>'',
     ''    "sourceName": "Q3_Report.pdf",\<newline>'',
     ''    "sourceReference": "Page 14"\<newline>'',
     ''  },\<newline>'',
     ''  {\<newline>'',
     ''    "claim": "Competitor X launched a similar product in 2023.",\<newline>'',
     ''    "sourceType": "web",\<newline>'',
     ''    "sourceName": "TechNews Daily",\<newline>'',
     ''    "sourceReference": "https://technews.example.com/article"\<newline>'',
     ''  }\<newline>'',
     '']\<newline>'',
     ''```\<newline>'',
     ''\<newline>'',
     ''**TONE:**\<newline>'',
     ''Professional, objective, high-level executive summary style.\<newline>'']\<close>

definition getSystemInstruction :: "ModelMode \<Rightarrow> jsstring" where
  "getSystemInstruction mode =
     (if mode = Fast then js (base_instruction @ fast_instruction)
      else js (base_instruction @ strict_instruction))"

section \<open>\<^verbatim>\<open>generateResearchResponse\<close>: the request\<close>

text \<open>Lines 69 to 73: each prior turn becomes its role and one text part.\<close>

definition historyContents :: "Message list \<Rightarrow> Content list" where
  "historyContents history =
     map (\<lambda>msg. \<lparr> role = msg_role msg, parts = [PText (msg_text msg)] \<rparr>) history"

text \<open>
  Lines 76 to 90: the \<^verbatim>\<open>forEach\<close> pushes two parts for each attachment onto
  \<^verbatim>\<open>currentParts\<close>, then the prompt is pushed.
\<close>

definition push_attachment :: "Part list \<Rightarrow> Attachment \<Rightarrow> Part list" where
  "push_attachment ps att =
     ps @ [PText (js ''[File Context: '' @ att_name att @ js '']'')]
        @ [PInlineData (att_mimeType att) (att_data att)]"

definition currentParts :: "jsstring \<Rightarrow> Attachment list \<Rightarrow> Part list" where
  "currentParts currentPrompt attachments =
     foldl push_attachment [] attachments @ [PText currentPrompt]"

text \<open>Lines 92 to 106: the model name and the tools of a mode.\<close>

definition modelName :: "ModelMode \<Rightarrow> jsstring" where
  "modelName mode =
     (if mode = Deep then js ''gemini-3-pro-preview''
      else if mode = Web then js ''gemini-2.5-flash''
      else js ''gemini-2.5-flash'')"

definition toolsOf :: "ModelMode \<Rightarrow> Tool list option" where
  "toolsOf mode =
     (if mode = Deep then Some [GoogleSearch]
      else if mode = Web then Some [GoogleSearch]
      else None)"

text \<open>Lines 109 to 119: the argument of \<^verbatim>\<open>generateContent\<close>.\<close>

definition buildRequest ::
  "jsstring \<Rightarrow> Message list \<Rightarrow> Attachment list \<Rightarrow> ModelMode \<Rightarrow> Request" where
  "buildRequest currentPrompt history attachments mode =
     \<lparr> model = modelName mode,
       contents = historyContents history
                  @ [\<lparr> role = User, parts = currentParts currentPrompt attachments \<rparr>],
       config = \<lparr> systemInstruction = getSystemInstruction mode, tools = toolsOf mode \<rparr> \<rparr>"

section \<open>\<^verbatim>\<open>generateResearchResponse\<close>: the response\<close>

record ResearchResponse =
  res_text :: jsstring
  res_groundingChunks :: "GroundingChunk list"
  res_evidence :: "json list"

definition no_response :: jsstring where
  "no_response = js ''No response generated.''"

text \<open>
  Line 121, \<^verbatim>\<open>response.text || "No response generated."\<close>: an undefined and an
  empty text are both falsy.
\<close>

definition fullText_of :: "jsstring option \<Rightarrow> jsstring" where
  "fullText_of t =
     (case t of
        None \<Rightarrow> no_response
      | Some s \<Rightarrow> if s = [] then no_response else s)"

text \<open>
  Lines 122 to 140. The block is read only when the match exists and its capture is
  truthy (not empty); an exception of \<^verbatim>\<open>JSON.parse\<close> is caught and logged; a
  parsed value that is not an array changes nothing. The result is the console
  output, \<^verbatim>\<open>cleanText\<close> and \<^verbatim>\<open>evidence\<close>.
\<close>

definition extractEvidence :: "jsstring \<Rightarrow> ConsoleCall list \<times> jsstring \<times> json list" where
  "extractEvidence fullText =
     (case match_json_block fullText of
        None \<Rightarrow> ([], fullText, [])
      | Some m \<Rightarrow>
          if m_group1 m = [] then ([], fullText, [])
          else
            (case JSON_parse (m_group1 m) of
               None \<Rightarrow> ([ConsoleWarn (js ''Failed to parse Evidence Graph JSON'')], fullText, [])
             | Some (JArray items) \<Rightarrow>
                 ([], trim (replace_first (m_whole m) [] fullText), items)
             | Some _ \<Rightarrow> ([], fullText, [])))"

text \<open>
  Lines 142 to 148: the chunks of the first candidate's grounding metadata, when every
  link of \<^verbatim>\<open>candidates && candidates[0]?.groundingMetadata?.groundingChunks\<close> is there
  (an array is truthy even when empty).
\<close>

definition nativeChunks :: "ApiResponse \<Rightarrow> GroundingChunk list" where
  "nativeChunks response =
     (case candidates response of
        None \<Rightarrow> []
      | Some [] \<Rightarrow> []
      | Some (c # _) \<Rightarrow>
          (case groundingMetadata c of
             None \<Rightarrow> []
           | Some gm \<Rightarrow> (case groundingChunks gm of None \<Rightarrow> [] | Some chunks \<Rightarrow> chunks)))"

text \<open>Lines 121 to 150: from the response of the API to the returned object.\<close>

definition extractResponse :: "ApiResponse \<Rightarrow> ConsoleCall list \<times> ResearchResponse" where
  "extractResponse response =
     (case extractEvidence (fullText_of (resp_text response)) of
        (logs, cleanText, evidence) \<Rightarrow>
          (logs, \<lparr> res_text = cleanText,
                   res_groundingChunks = nativeChunks response,
                   res_evidence = evidence \<rparr>))"

text \<open>
  The whole function: the request is built and sent once; a rejection is logged and
  thrown again (\<open>Inl\<close>), a response is handed to the extraction.
\<close>

definition generateResearchResponse ::
  "'e Api \<Rightarrow> jsstring \<Rightarrow> Message list \<Rightarrow> Attachment list \<Rightarrow> ModelMode
     \<Rightarrow> ConsoleCall list \<times> ('e + ResearchResponse)" where
  "generateResearchResponse api currentPrompt history attachments mode =
     (case api (buildRequest currentPrompt history attachments mode) of
        Inl error \<Rightarrow> ([ConsoleError (js ''Gemini API Error:'')], Inl error)
      | Inr response \<Rightarrow>
          (case extractResponse response of (logs, result) \<Rightarrow> (logs, Inr result)))"

section \<open>\<^verbatim>\<open>src/utils.ts\<close>: reading the files\<close>

text \<open>
  \<^verbatim>\<open>s.split(',')\<close> with a one-character separator: the pieces between the
  separators, at least one piece.
\<close>

fun split_on :: "jschar \<Rightarrow> jsstring \<Rightarrow> jsstring list" where
  "split_on sep [] = [[]]"
| "split_on sep (c # cs) =
     (if c = sep then [] # split_on sep cs
      else (case split_on sep cs of
              [] \<Rightarrow> [[c]]
            | x # xs \<Rightarrow> (c # x) # xs))"

text \<open>Reading an array at an index: \<^verbatim>\<open>undefined\<close> past the end.\<close>

definition at_index :: "'a list \<Rightarrow> nat \<Rightarrow> 'a option" where
  "at_index xs i = (if i < length xs then Some (xs ! i) else None)"

text \<open>
  A \<^verbatim>\<open>File\<close> of the browser, as far as the code reads it: its name and type, its
  size (never read by the code), and what \<^verbatim>\<open>FileReader.readAsDataURL\<close> does with
  it: the data URL handed to \<^verbatim>\<open>onload\<close>, or \<open>None\<close> when \<^verbatim>\<open>onerror\<close> fires.
\<close>

record File =
  file_name :: jsstring
  file_type :: jsstring
  file_size :: nat
  file_dataURL :: "jsstring option"

datatype ReadError = ReadError

definition fileToBase64 :: "File \<Rightarrow> ReadError + jsstring option" where
  "fileToBase64 file =
     (case file_dataURL file of
        None \<Rightarrow> Inl ReadError
      | Some result \<Rightarrow> Inr (at_index (split_on 0x2C result) 1))"

text \<open>
  One round of the loop of \<^verbatim>\<open>processFiles\<close>, on the console output and the
  attachments collected so far.
\<close>

definition process_file ::
  "ConsoleCall list \<times> Attachment list \<Rightarrow> File \<Rightarrow> ConsoleCall list \<times> Attachment list" where
  "process_file acc file =
     (case acc of
        (logs, attachments) \<Rightarrow>
          if file_type file = js ''application/pdf'' then
            (case fileToBase64 file of
               Inr base64Data \<Rightarrow>
                 (logs,
                  attachments @ [\<lparr> att_name = file_name file,
                                    att_mimeType = file_type file,
                                    att_data = base64Data \<rparr>])
             | Inl err \<Rightarrow>
                 (logs @ [ConsoleError (js ''Failed to process file '' @ file_name file)],
                  attachments))
          else (logs, attachments))"

definition processFiles :: "File list option \<Rightarrow> ConsoleCall list \<times> Attachment list" where
  "processFiles files =
     (case files of
        None \<Rightarrow> ([], [])
      | Some fs \<Rightarrow> foldl process_file ([], []) fs)"

section \<open>\<^verbatim>\<open>src/components/ResearchInterface.tsx\<close>: the calling interface\<close>

text \<open>The React state of the component that the handlers read and write.\<close>

record UiState =
  messages :: "Message list"
  input :: jsstring
  isLoading :: bool
  attachments :: "Attachment list"
  isDarkMode :: bool
  modelMode :: ModelMode

text \<open>
  What \<^verbatim>\<open>handleSubmit\<close> takes from its environment: two results of \<^verbatim>\<open>uuidv4()\<close>
  and two of \<^verbatim>\<open>Date.now()\<close>.
\<close>

record Env =
  uuid1 :: jsstring
  now1 :: int
  uuid2 :: jsstring
  now2 :: int

definition apology :: jsstring where
  "apology = js (''I apologize, but I encountered an error while processing your request. ''
                 @ ''Please check your API key or connection and try again.'')"

text \<open>
  \<^verbatim>\<open>handleSubmit\<close>, lines 75 to 131: the state once the handler has finished, the
  requests it sent to the API and its console output. The guard of line 77 returns
  before anything is written; \<^verbatim>\<open>!input.trim()\<close> holds for the empty string only.
\<close>

definition handleSubmit ::
  "Env \<Rightarrow> 'e Api \<Rightarrow> UiState \<Rightarrow> UiState \<times> Request list \<times> ConsoleCall list" where
  "handleSubmit env api st =
     (if (trim (input st) = [] \<and> length (attachments st) = 0) \<or> isLoading st
      then (st, [], [])
      else
        (let currentAttachments = attachments st;
             userMessageText = input st;
             currentMode = modelMode st;
             userMsg = \<lparr> msg_id = uuid1 env, msg_role = User, msg_text = userMessageText,
                         msg_attachments = Some currentAttachments,
                         msg_groundingChunks = None, msg_evidence = None,
                         msg_timestamp = now1 env \<rparr>;
             sent = [buildRequest userMessageText (messages st) currentAttachments currentMode]
         in case generateResearchResponse api userMessageText (messages st)
                   currentAttachments currentMode of
              (logs, Inr response) \<Rightarrow>
                (st \<lparr> messages :=
                        messages st @ [userMsg,
                          \<lparr> msg_id = uuid2 env, msg_role = Model,
                            msg_text = res_text response,
                            msg_attachments = None,
                            msg_groundingChunks = Some (res_groundingChunks response),
                            msg_evidence = Some (res_evidence response),
                            msg_timestamp = now2 env \<rparr>],
                      input := [], attachments := [], isLoading := False \<rparr>,
                 sent, logs)
            | (logs, Inl error) \<Rightarrow>
                (st \<lparr> messages :=
                        messages st @ [userMsg,
                          \<lparr> msg_id = uuid2 env, msg_role = Model,
                            msg_text = apology,
                            msg_attachments = None,
                            msg_groundingChunks = None, msg_evidence = None,
                            msg_timestamp = now2 env \<rparr>],
                      input := [], attachments := [], isLoading := False \<rparr>,
                 sent, logs @ [ConsoleError (js ''Error generating response'')])))"

text \<open>
  \<^verbatim>\<open>handleFileUpload\<close>, lines 61 to 69: the attachments of the chosen files are
  appended to the staged ones.
\<close>

definition handleFileUpload :: "File list option \<Rightarrow> UiState \<Rightarrow> UiState \<times> ConsoleCall list" where
  "handleFileUpload files st =
     (case files of
        None \<Rightarrow> (st, [])
      | Some fs \<Rightarrow>
          (case processFiles (Some fs) of
             (logs, newAttachments) \<Rightarrow>
               (st \<lparr> attachments := attachments st @ newAttachments \<rparr>, logs)))"

text \<open>
  Lines 276 to 299, the list under "Web Sources": shown when the turn has no evidence
  and at least one grounding chunk; a chunk with a \<^verbatim>\<open>web\<close> field is rendered as a
  link to it, any other chunk as \<^verbatim>\<open>null\<close> (nothing on the page).
\<close>

definition renderWebSources :: "Message \<Rightarrow> WebSource option list option" where
  "renderWebSources msg =
     (if (case msg_evidence msg of None \<Rightarrow> True | Some ev \<Rightarrow> length ev = 0)
         \<and> (case msg_groundingChunks msg of None \<Rightarrow> False | Some chunks \<Rightarrow> length chunks > 0)
      then
        (case msg_groundingChunks msg of
           None \<Rightarrow> None
         | Some chunks \<Rightarrow>
             Some (map (\<lambda>chunk. case web chunk of Some w \<Rightarrow> Some w | None \<Rightarrow> None) chunks))
      else None)"

text \<open>The links that are on the page: the rendered elements that are not \<^verbatim>\<open>null\<close>.\<close>

definition shownLinks :: "Message \<Rightarrow> WebSource list" where
  "shownLinks msg =
     (case renderWebSources msg of
        None \<Rightarrow> []
      | Some elements \<Rightarrow> concat (map (\<lambda>el. case el of None \<Rightarrow> [] | Some w \<Rightarrow> [w]) elements))"

section \<open>Auxiliary facts\<close>

lemma foldl_push_attachment:
  "foldl push_attachment acc atts =
     acc @ concat (map (\<lambda>att. [PText (js ''[File Context: '' @ att_name att @ js '']''),
                               PInlineData (att_mimeType att) (att_data att)]) atts)"
  by (induction atts arbitrary: acc) (simp_all add: push_attachment_def)

lemma foldl_process_file:
  "foldl process_file (logs, atts) fs =
     (logs @ map (\<lambda>f. ConsoleError (js ''Failed to process file '' @ file_name f))
               (filter (\<lambda>f. file_type f = js ''application/pdf'' \<and> file_dataURL f = None) fs),
      atts @ map (\<lambda>f. \<lparr> att_name = file_name f, att_mimeType = file_type f,
                          att_data = (case file_dataURL f of
                                        None \<Rightarrow> None
                                      | Some url \<Rightarrow> at_index (split_on 0x2C url) 1) \<rparr>)
               (filter (\<lambda>f. file_type f = js ''application/pdf'' \<and> file_dataURL f \<noteq> None) fs))"
proof (induction fs arbitrary: logs atts)
  case Nil
  show ?case by simp
next
  case (Cons f fs)
  have step: "process_file (logs, atts) f =
      (if file_type f = js ''application/pdf'' then
         (case file_dataURL f of
            None \<Rightarrow> (logs @ [ConsoleError (js ''Failed to process file '' @ file_name f)], atts)
          | Some url \<Rightarrow> (logs, atts @ [\<lparr> att_name = file_name f, att_mimeType = file_type f,
                                  att_data = at_index (split_on 0x2C url) 1 \<rparr>]))
       else (logs, atts))"
    by (simp add: process_file_def fileToBase64_def split: option.splits)
  show ?case
    by (cases "file_dataURL f") (simp_all add: step Cons.IH)
qed

lemma no_response_no_block: "match_json_block no_response = None"
  by (simp add: match_json_block_def no_response_def jsonBlockRegex_def fence_open_def js_def)


subsection \<open>The matcher finds a match exactly when one exists\<close>

lemma match_sound:
  "(match_pieces ps s = Some lens \<longrightarrow> fits ps s lens)"
  "(star q c ps k s = Some lens \<longrightarrow>
      (\<exists>j r. lens = (k + j) # r \<and> j \<le> length s \<and> (\<forall>x \<in> set (take j s). in_cls c x)
             \<and> fits ps (drop j s) r))"
proof (induction ps s and q c ps k s arbitrary: lens and lens rule: match_pieces_star.induct)
  case (1 s)
  then show ?case by simp
next
  case (2 l ps s)
  then show ?case by (auto split: if_splits)
next
  case (3 q c ps s)
  then show ?case by fastforce
next
  case (4 c ps k s)
  show ?case
  proof
    assume a: "star Lazy c ps k s = Some lens"
    show "\<exists>j r. lens = (k + j) # r \<and> j \<le> length s \<and> (\<forall>x \<in> set (take j s). in_cls c x)
             \<and> fits ps (drop j s) r"
    proof (cases "match_pieces ps s")
      case (Some r)
      with a have "lens = k # r" by simp
      moreover from Some 4(1) have "fits ps s r" by simp
      ultimately show ?thesis by (intro exI [of _ 0] exI [of _ r]) simp
    next
      case None
      with a obtain x xs where s: "s = x # xs" and x: "in_cls c x"
        and rec: "star Lazy c ps (Suc k) xs = Some lens"
        by (cases s) (auto split: if_splits)
      from 4(2) [OF None s x] rec obtain j r where
        "lens = (Suc k + j) # r" "j \<le> length xs" "\<forall>x \<in> set (take j xs). in_cls c x"
        "fits ps (drop j xs) r"
        by blast
      with s x show ?thesis
        by (intro exI [of _ "Suc j"] exI [of _ r]) simp
    qed
  qed
next
  case (5 c ps k s)
  show ?case
  proof
    assume a: "star Greedy c ps k s = Some lens"
    let ?more = "(case s of [] \<Rightarrow> None
                  | x # xs \<Rightarrow> if in_cls c x then star Greedy c ps (Suc k) xs else None)"
    show "\<exists>j r. lens = (k + j) # r \<and> j \<le> length s \<and> (\<forall>x \<in> set (take j s). in_cls c x)
             \<and> fits ps (drop j s) r"
    proof (cases ?more)
      case (Some r0)
      with a have l: "lens = r0" by simp
      from Some obtain x xs where s: "s = x # xs" and x: "in_cls c x"
        and rec: "star Greedy c ps (Suc k) xs = Some lens"
        unfolding l by (cases s) (auto split: if_splits)
      from 5(1) [OF s x] rec obtain j r where
        "lens = (Suc k + j) # r" "j \<le> length xs" "\<forall>x \<in> set (take j xs). in_cls c x"
        "fits ps (drop j xs) r"
        by blast
      with s x show ?thesis
        by (intro exI [of _ "Suc j"] exI [of _ r]) simp
    next
      case None
      with a obtain r where r: "match_pieces ps s = Some r" and l: "lens = k # r"
        by auto
      from 5(2) [OF None] r have "fits ps s r" by simp
      with l show ?thesis by (intro exI [of _ 0] exI [of _ r]) simp
    qed
  qed
qed

lemma match_complete:
  "(fits ps s lens \<longrightarrow> match_pieces ps s \<noteq> None)"
  "(j \<le> length s \<and> (\<forall>x \<in> set (take j s). in_cls c x) \<and> fits ps (drop j s) lens
      \<longrightarrow> star q c ps k s \<noteq> None)"
proof (induction ps s and q c ps k s arbitrary: lens and j lens rule: match_pieces_star.induct)
  case (1 s)
  then show ?case by simp
next
  case (2 l ps s)
  then show ?case by (cases lens) auto
next
  case (3 q c ps s)
  show ?case
  proof
    assume f: "fits (Star q c # ps) s lens"
    then obtain k r where l: "lens = k # r" by (cases lens) auto
    from f l have "k \<le> length s \<and> (\<forall>x \<in> set (take k s). in_cls c x) \<and> fits ps (drop k s) r"
      by auto
    with 3 [of k r] show "match_pieces (Star q c # ps) s \<noteq> None" by simp
  qed
next
  case (4 c ps k s)
  show ?case
  proof
    assume a: "j \<le> length s \<and> (\<forall>x \<in> set (take j s). in_cls c x) \<and> fits ps (drop j s) lens"
    show "star Lazy c ps k s \<noteq> None"
    proof (cases "match_pieces ps s")
      case (Some r)
      then show ?thesis by simp
    next
      case None
      with 4(1) [of lens] a have "j \<noteq> 0" by (cases j) auto
      then obtain j' where j: "j = Suc j'" by (cases j) auto
      with a obtain x xs where s: "s = x # xs" by (cases s) auto
      from a j s have x: "in_cls c x" by simp
      from a j s have "j' \<le> length xs \<and> (\<forall>x \<in> set (take j' xs). in_cls c x)
          \<and> fits ps (drop j' xs) lens"
        by simp
      with 4(2) [OF None s x, of j' lens] have "star Lazy c ps (Suc k) xs \<noteq> None" by simp
      with None s x show ?thesis by simp
    qed
  qed
next
  case (5 c ps k s)
  show ?case
  proof
    assume a: "j \<le> length s \<and> (\<forall>x \<in> set (take j s). in_cls c x) \<and> fits ps (drop j s) lens"
    let ?more = "(case s of [] \<Rightarrow> None
                  | x # xs \<Rightarrow> if in_cls c x then star Greedy c ps (Suc k) xs else None)"
    show "star Greedy c ps k s \<noteq> None"
    proof (cases ?more)
      case (Some r)
      then show ?thesis by simp
    next
      case None
      show ?thesis
      proof (cases j)
        case 0
        with a have "fits ps s lens" by simp
        with 5(2) [OF None, of lens] have "match_pieces ps s \<noteq> None" by simp
        with None show ?thesis by auto
      next
        case (Suc j')
        with a obtain x xs where s: "s = x # xs" by (cases s) auto
        from a Suc s have x: "in_cls c x" by simp
        from a Suc s have "j' \<le> length xs \<and> (\<forall>x \<in> set (take j' xs). in_cls c x)
            \<and> fits ps (drop j' xs) lens"
          by simp
        with 5(1) [OF s x, of j' lens] have "star Greedy c ps (Suc k) xs \<noteq> None" by simp
        with None s x show ?thesis by simp
      qed
    qed
  qed
qed

lemma fits_length: "fits ps s lens \<Longrightarrow> sum_list lens \<le> length s"
proof (induction ps s lens rule: fits.induct)
  case (2 l ps s k lens)
  then show ?case by (auto simp: prefix_def)
next
  case (3 q c ps s k lens)
  then show ?case by auto
qed auto

lemma fits_extend:
  "fits ps (u @ v) lens \<Longrightarrow> sum_list lens \<le> length u \<Longrightarrow> fits ps (u @ w) lens"
proof (induction ps "u @ v" lens arbitrary: u rule: fits.induct)
  case (1 lens)
  then show ?case by simp
next
  case (2 l ps k lens)
  from 2(2,3) have k: "k = length l" "k \<le> length u" and p: "prefix l (u @ v)"
    and f: "fits ps (drop k u @ v) lens"
    by auto
  from p k have pu: "prefix l u"
    by (metis prefix_length_prefix prefix_order.dual_order.refl prefix_append prefixI)
  have "fits ps (drop k u @ w) lens"
    using 2(1) [of "drop k u"] 2(2,3) k f by auto
  with k pu show ?case by (auto simp: prefix_def)
next
  case (3 q c ps k lens)
  from 3(2,3) have k: "k \<le> length u" by auto
  with 3(2) have "\<forall>x \<in> set (take k u). in_cls c x" and f: "fits ps (drop k u @ v) lens"
    by auto
  moreover have "fits ps (drop k u @ w) lens"
    using 3(1) [of "drop k u"] 3(2,3) k f by auto
  ultimately show ?case using k by auto
next
  case (4 p ps)
  then show ?case by simp
qed

lemma fits_lengths: "fits ps s lens \<Longrightarrow> length lens = length ps"
  by (induction ps s lens rule: fits.induct) auto

lemma exec_from_Some:
  "exec_from ps i s = Some (j, lens) \<Longrightarrow>
     \<exists>k. j = i + k \<and> k \<le> length s \<and> match_pieces ps (drop k s) = Some lens
         \<and> (\<forall>k' < k. match_pieces ps (drop k' s) = None)"
proof (induction s arbitrary: i)
  case Nil
  then show ?case by auto
next
  case (Cons c cs)
  show ?case
  proof (cases "match_pieces ps (c # cs)")
    case (Some r)
    with Cons.prems show ?thesis by (intro exI [of _ 0]) simp
  next
    case None
    with Cons.prems have "exec_from ps (Suc i) cs = Some (j, lens)" by simp
    from Cons.IH [OF this] obtain k where k: "j = Suc i + k" "k \<le> length cs"
      "match_pieces ps (drop k cs) = Some lens" "\<forall>k' < k. match_pieces ps (drop k' cs) = None"
      by blast
    have "\<forall>k' < Suc k. match_pieces ps (drop k' (c # cs)) = None"
    proof (intro allI impI)
      fix k' assume "k' < Suc k"
      then show "match_pieces ps (drop k' (c # cs)) = None"
        using None k(4) by (cases k') auto
    qed
    with k show ?thesis by (intro exI [of _ "Suc k"]) simp
  qed
qed

lemma index_from_first:
  "k \<le> length s \<Longrightarrow> prefix n (drop k s) \<Longrightarrow> (\<forall>k' < k. \<not> prefix n (drop k' s))
     \<Longrightarrow> index_from n i s = Some (i + k)"
proof (induction s arbitrary: i k)
  case Nil
  then show ?case by simp
next
  case (Cons c cs)
  show ?case
  proof (cases k)
    case 0
    with Cons.prems show ?thesis by simp
  next
    case (Suc k')
    with Cons.prems have np: "\<not> prefix n (c # cs)" by force
    from Cons.prems Suc have "k' \<le> length cs" "prefix n (drop k' cs)" by simp_all
    moreover from Cons.prems(3) Suc have "\<forall>k'' < k'. \<not> prefix n (drop k'' cs)" by force
    ultimately have "index_from n (Suc i) cs = Some (Suc i + k')" by (rule Cons.IH)
    with np Suc show ?thesis by simp
  qed
qed

lemma exec_first_occurrence:
  assumes "exec_from ps 0 s = Some (i, lens)"
  shows "index_from (take (sum_list lens) (drop i s)) 0 s = Some i"
    and "i + sum_list lens \<le> length s"
proof -
  from exec_from_Some [OF assms] have i: "i \<le> length s"
    and m: "match_pieces ps (drop i s) = Some lens"
    and first: "\<forall>k' < i. match_pieces ps (drop k' s) = None"
    by auto
  from m have f: "fits ps (drop i s) lens" using match_sound(1) by blast
  from fits_length [OF f] i show len: "i + sum_list lens \<le> length s" by simp
  let ?w = "take (sum_list lens) (drop i s)"
  have lw: "length ?w = sum_list lens" using len by simp
  have "\<forall>k' < i. \<not> prefix ?w (drop k' s)"
  proof (intro allI impI notI)
    fix k' assume k': "k' < i" and p: "prefix ?w (drop k' s)"
    then obtain w where w: "drop k' s = ?w @ w" by (auto simp: prefix_def)
    have "fits ps (?w @ drop (sum_list lens) (drop i s)) lens"
      using f by (simp only: append_take_drop_id)
    from fits_extend [OF this, of w] lw have "fits ps (drop k' s) lens" by (simp add: w)
    with match_complete(1) have "match_pieces ps (drop k' s) \<noteq> None" by blast
    with first k' show False by simp
  qed
  from index_from_first [OF i take_is_prefix this, of 0] show "index_from ?w 0 s = Some i"
    by simp
qed

text \<open>
  A match of the block pattern has one length for each of its five pieces, so the
  indices that \<open>match_json_block\<close> reads are in range.
\<close>

lemma exec_jsonBlockRegex_lengths:
  assumes "exec_from jsonBlockRegex 0 s = Some (i, lens)"
  shows "length lens = 5"
proof -
  from exec_from_Some [OF assms] have "match_pieces jsonBlockRegex (drop i s) = Some lens"
    by auto
  with match_sound(1) have "fits jsonBlockRegex (drop i s) lens" by blast
  from fits_lengths [OF this] show ?thesis by (simp add: jsonBlockRegex_def)
qed

lemma match_json_block_removed:
  assumes "match_json_block s = Some m"
  shows "replace_first (m_whole m) [] s
           = take (m_index m) s @ drop (m_index m + length (m_whole m)) s"
    and "s = take (m_index m) s @ m_whole m @ drop (m_index m + length (m_whole m)) s"
proof -
  from assms obtain i lens where e: "exec_from jsonBlockRegex 0 s = Some (i, lens)"
    and i: "m_index m = i" and w: "m_whole m = take (sum_list lens) (drop i s)"
    by (auto simp: match_json_block_def split: option.splits)
  from exec_first_occurrence [OF e] w have "index_from (m_whole m) 0 s = Some i"
    and len: "i + sum_list lens \<le> length s" by simp_all
  then show "replace_first (m_whole m) [] s
           = take (m_index m) s @ drop (m_index m + length (m_whole m)) s"
    by (simp add: replace_first_def i)
  from len w have "length (m_whole m) = sum_list lens" by simp
  then show "s = take (m_index m) s @ m_whole m @ drop (m_index m + length (m_whole m)) s"
    unfolding i w by (metis append_take_drop_id drop_drop add.commute)
qed

lemma JSON_parse_Nil: "JSON_parse [] = None"
  by (simp add: JSON_parse_def)

subsection \<open>What the block pattern locates\<close>

text \<open>
  The search order of the matcher, made explicit. A greedy star over a run of class
  characters that ends before a character outside the class takes the whole run when
  the rest of the pattern matches there; a lazy star takes the shortest segment after
  which the rest of the pattern matches; \<open>exec_from\<close> returns the first index with
  a match.
\<close>

lemma star_Greedy_all:
  assumes "\<forall>x \<in> set ws. in_cls c x"
    and "rest = [] \<or> \<not> in_cls c (hd rest)"
    and "match_pieces ps rest = Some r"
  shows "star Greedy c ps k (ws @ rest) = Some ((k + length ws) # r)"
  using assms(1)
proof (induction ws arbitrary: k)
  case Nil
  from assms(2) have "(case rest of [] \<Rightarrow> None
          | x # xs \<Rightarrow> if in_cls c x then star Greedy c ps (Suc k) xs else None) = None"
    by (cases rest) auto
  with assms(3) show ?case by simp
next
  case (Cons x xs)
  then have "star Greedy c ps (Suc k) (xs @ rest) = Some ((Suc k + length xs) # r)" by simp
  with Cons.prems show ?case by simp
qed

lemma star_Lazy_first:
  assumes "\<forall>j < length body. match_pieces ps (drop j body @ rest) = None"
    and "match_pieces ps rest = Some r"
  shows "star Lazy AnyChar ps k (body @ rest) = Some ((k + length body) # r)"
  using assms(1)
proof (induction body arbitrary: k)
  case Nil
  with assms(2) show ?case by simp
next
  case (Cons x xs)
  from Cons.prems have none: "match_pieces ps (x # xs @ rest) = None" by force
  from Cons.prems have "\<forall>j < length xs. match_pieces ps (drop j xs @ rest) = None" by force
  then have "star Lazy AnyChar ps (Suc k) (xs @ rest) = Some ((Suc k + length xs) # r)"
    by (rule Cons.IH)
  with none show ?case by simp
qed

lemma exec_from_first:
  "k \<le> length s \<Longrightarrow> match_pieces ps (drop k s) = Some lens
     \<Longrightarrow> (\<forall>j < k. match_pieces ps (drop j s) = None)
     \<Longrightarrow> exec_from ps i s = Some (i + k, lens)"
proof (induction s arbitrary: i k)
  case Nil
  then show ?case by simp
next
  case (Cons c cs)
  show ?case
  proof (cases k)
    case 0
    with Cons.prems show ?thesis by simp
  next
    case (Suc k')
    with Cons.prems have none: "match_pieces ps (c # cs) = None" by force
    from Cons.prems Suc have "k' \<le> length cs" "match_pieces ps (drop k' cs) = Some lens"
      by simp_all
    moreover from Cons.prems(3) Suc have "\<forall>j < k'. match_pieces ps (drop j cs) = None"
      by force
    ultimately have "exec_from ps (Suc i) cs = Some (Suc i + k', lens)" by (rule Cons.IH)
    with none Suc show ?thesis by simp
  qed
qed

text \<open>
  Hence the block that \<open>match_json_block\<close> returns, in plain terms: the leftmost
  opening fence \<^verbatim>\<open>```json\<close>, the whitespace after it, the content up to the first
  closing fence \<^verbatim>\<open>```\<close> that follows (without the whitespace before that fence),
  and the closing fence. The capture is the content.
\<close>

lemma fence_lengths: "length fence_open = 7" "length fence_close = 3"
  by (simp_all add: fence_open_def fence_close_def js_def)

lemma fence_close_no_space: "\<not> is_space (hd fence_close)" "fence_close \<noteq> []"
  by (simp_all add: fence_close_def js_def is_space_def)

lemma prefix_within:
  assumes "prefix xs (ys @ zs)" and "length xs \<le> length ys"
  shows "prefix xs ys"
  using assms prefix_length_prefix [of xs "ys @ zs" ys] by simp

lemma match_json_block_located:
  assumes raw: "raw = pre @ fence_open @ ws1 @ body @ ws2 @ fence_close @ post"
    and first: "\<forall>j < length pre. \<not> prefix fence_open (drop j (pre @ fence_open))"
    and ws1: "\<forall>x \<in> set ws1. is_space x"
    and ws2: "\<forall>x \<in> set ws2. is_space x"
    and body: "body \<noteq> []" "\<not> is_space (hd body)" "\<not> is_space (last body)"
    and inner: "\<forall>j < length body. \<not> prefix fence_close (drop j (body @ ws2 @ fence_close))"
  shows "match_json_block raw
           = Some \<lparr> m_index = length pre,
                    m_whole = fence_open @ ws1 @ body @ ws2 @ fence_close,
                    m_group1 = body \<rparr>"
proof -
  let ?tail = "[Star Greedy Space, Lit fence_close]"
  let ?rest = "ws2 @ fence_close @ post"
  have close: "match_pieces [Lit fence_close] (fence_close @ post) = Some [3]"
    by (simp add: fence_lengths)
  have tail: "match_pieces ?tail ?rest = Some [length ws2, 3]"
    using star_Greedy_all [of ws2 Space "fence_close @ post" "[Lit fence_close]" "[3]" 0]
      ws2 close fence_close_no_space
    by simp
  have early: "\<forall>j < length body. match_pieces ?tail (drop j body @ ?rest) = None"
  proof (intro allI impI)
    fix j assume j: "j < length body"
    let ?u = "drop j body @ ?rest"
    show "match_pieces ?tail ?u = None"
    proof (rule ccontr)
      assume "match_pieces ?tail ?u \<noteq> None"
      then obtain lens where "match_pieces ?tail ?u = Some lens" by auto
      with match_sound(1) have f: "fits ?tail ?u lens" by blast
      then obtain k l where lens: "lens = [k, l]"
        by (cases lens; cases "tl lens"; cases "tl (tl lens)") auto
      from f lens have k: "\<forall>x \<in> set (take k ?u). is_space x"
        and p: "prefix fence_close (drop k ?u)"
        by auto
      have kb: "k < length (drop j body)"
      proof (rule ccontr)
        assume "\<not> k < length (drop j body)"
        then have "set (drop j body) \<subseteq> set (take k ?u)" by auto
        moreover from j have "last body \<in> set (drop j body)"
          by (metis drop_eq_Nil last_drop last_in_set not_le)
        ultimately show False using k body(3) by auto
      qed
      then have d: "drop k ?u = drop (j + k) body @ ?rest" by (simp add: add.commute)
      from kb have jk: "j + k < length body" by simp
      have "prefix fence_close (drop (j + k) (body @ ws2 @ fence_close))"
      proof (rule prefix_within [where zs = post])
        from p d jk show "prefix fence_close (drop (j + k) (body @ ws2 @ fence_close) @ post)"
          by simp
        from jk show "length fence_close \<le> length (drop (j + k) (body @ ws2 @ fence_close))"
          by simp
      qed
      with inner jk show False by blast
    qed
  qed
  have lazy: "match_pieces (Star Lazy AnyChar # ?tail) (body @ ?rest)
                = Some [length body, length ws2, 3]"
    using star_Lazy_first [OF early tail, of 0] by simp
  have greedy: "match_pieces (Star Greedy Space # Star Lazy AnyChar # ?tail)
                   (ws1 @ body @ ?rest)
                = Some [length ws1, length body, length ws2, 3]"
    using star_Greedy_all [of ws1 Space "body @ ?rest" "Star Lazy AnyChar # ?tail" _ 0]
      ws1 lazy body(1,2)
    by simp
  let ?lens = "[7, length ws1, length body, length ws2, 3]"
  have here: "match_pieces jsonBlockRegex (drop (length pre) raw) = Some ?lens"
    using greedy by (simp add: raw jsonBlockRegex_def fence_lengths)
  have before: "\<forall>j < length pre. match_pieces jsonBlockRegex (drop j raw) = None"
  proof (intro allI impI)
    fix j assume j: "j < length pre"
    have "\<not> prefix fence_open (drop j raw)"
    proof
      assume "prefix fence_open (drop j raw)"
      with j have "prefix fence_open
          (drop j (pre @ fence_open) @ ws1 @ body @ ws2 @ fence_close @ post)"
        by (simp add: raw)
      then have "prefix fence_open (drop j (pre @ fence_open))"
        by (rule prefix_within) (use j in simp)
      with first j show False by blast
    qed
    then show "match_pieces jsonBlockRegex (drop j raw) = None"
      by (simp add: jsonBlockRegex_def)
  qed
  have "length pre \<le> length raw" by (simp add: raw)
  from exec_from_first [OF this here before, of 0]
  have "exec_from jsonBlockRegex 0 raw = Some (length pre, ?lens)" by simp
  then show ?thesis
    by (simp add: match_json_block_def raw fence_lengths)
qed

text \<open>A text in which the opening fence occurs nowhere holds no block.\<close>

lemma exec_from_all_None:
  "(\<forall>k \<le> length s. match_pieces ps (drop k s) = None) \<Longrightarrow> exec_from ps i s = None"
proof (induction s arbitrary: i)
  case Nil
  then show ?case by simp
next
  case (Cons c cs)
  from Cons.prems have "match_pieces ps (c # cs) = None" by force
  moreover from Cons.prems have "\<forall>k \<le> length cs. match_pieces ps (drop k cs) = None" by force
  then have "exec_from ps (Suc i) cs = None" by (rule Cons.IH)
  ultimately show ?case by simp
qed

lemma no_fence_no_block:
  assumes "\<not> sublist fence_open t"
  shows "match_json_block t = None"
proof -
  have "\<forall>k \<le> length t. match_pieces jsonBlockRegex (drop k t) = None"
  proof (intro allI impI)
    fix k assume "k \<le> length t"
    have "\<not> prefix fence_open (drop k t)"
    proof
      assume "prefix fence_open (drop k t)"
      then obtain w where "drop k t = fence_open @ w" by (auto simp: prefix_def)
      then have "t = take k t @ fence_open @ w" by (metis append_take_drop_id)
      with assms show False unfolding sublist_def by blast
    qed
    then show "match_pieces jsonBlockRegex (drop k t) = None"
      by (simp add: jsonBlockRegex_def)
  qed
  from exec_from_all_None [OF this] show ?thesis by (simp add: match_json_block_def)
qed

subsection \<open>The extraction step\<close>

lemma extractEvidence_strip:
  assumes "match_json_block t = Some m" and "JSON_parse (m_group1 m) = Some (JArray items)"
  shows "extractEvidence t
           = ([], trim (take (m_index m) t @ drop (m_index m + length (m_whole m)) t), items)"
proof -
  from assms(2) have "m_group1 m \<noteq> []" using JSON_parse_Nil by auto
  with assms show ?thesis
    by (simp add: extractEvidence_def match_json_block_removed(1))
qed

lemma extractEvidence_keep:
  assumes "match_json_block t = None
           \<or> (\<exists>m. match_json_block t = Some m
                  \<and> (\<forall>items. JSON_parse (m_group1 m) \<noteq> Some (JArray items)))"
  shows "snd (extractEvidence t) = (t, [])"
  using assms by (auto simp: extractEvidence_def split: option.splits json.splits)

lemma match_json_block_whole_length:
  assumes "match_json_block s = Some m"
  shows "7 \<le> length (m_whole m)"
proof -
  from assms obtain i lens where e: "exec_from jsonBlockRegex 0 s = Some (i, lens)"
    and w: "m_whole m = take (sum_list lens) (drop i s)"
    by (auto simp: match_json_block_def split: option.splits)
  from exec_from_Some [OF e] have "match_pieces jsonBlockRegex (drop i s) = Some lens" by auto
  with match_sound(1) have f: "fits jsonBlockRegex (drop i s) lens" by blast
  then obtain r where "lens = 7 # r"
    by (cases lens) (auto simp: jsonBlockRegex_def fence_open_def js_def)
  moreover from exec_first_occurrence(2) [OF e] have "i + sum_list lens \<le> length s" .
  ultimately show ?thesis using w by simp
qed

lemma length_trim_le: "length (trim s) \<le> length s"
proof -
  have "length (trim s) \<le> length (dropWhile is_space s)"
    unfolding trim_def by (metis length_rev length_dropWhile_le)
  also have "\<dots> \<le> length s" by (rule length_dropWhile_le)
  finally show ?thesis .
qed

lemma answers_eq: "answers r request = Inr r"
  by (simp add: answers_def)

lemma no_response_not_empty: "no_response \<noteq> []"
  by (simp add: no_response_def js_def)

text \<open>The definitions that evaluate the matcher and the parser on a concrete text.\<close>

lemmas eval_defs =
  match_json_block_def jsonBlockRegex_def fence_open_def fence_close_def js_def is_space_def
  JSON_parse_def is_json_ws_def is_digit_def escape_def

section \<open>The response extractor\<close>

text \<open>
  C1, as amended. For every raw model text in which the first fenced json block (the
  match of the fence pattern: the leftmost \<^verbatim>\<open>```json\<close>, its content running to the
  first following \<^verbatim>\<open>```\<close>) has a content that parses to a JSON list of \<open>N\<close>
  items, the extractor returns exactly these \<open>N\<close> items as evidence, and its text is
  the raw text with that block cut out and leading and trailing whitespace trimmed.
\<close>

theorem extractor_round_trip:
  assumes "resp_text r = Some raw"
    and "match_json_block raw = Some m"
    and "JSON_parse (m_group1 m) = Some (JArray items)"
    and "length items = N"
  shows "raw = take (m_index m) raw @ m_whole m @ drop (m_index m + length (m_whole m)) raw
         \<and> snd (extractResponse r)
             = \<lparr> res_text = trim (take (m_index m) raw
                                      @ drop (m_index m + length (m_whole m)) raw),
                 res_groundingChunks = nativeChunks r,
                 res_evidence = items \<rparr>
         \<and> length (res_evidence (snd (extractResponse r))) = N"
proof -
  from match_json_block_removed(2) [OF assms(2)] match_json_block_whole_length [OF assms(2)]
  have "raw \<noteq> []" by auto
  with assms(1) have "fullText_of (resp_text r) = raw" by (simp add: fullText_of_def)
  with extractEvidence_strip [OF assms(2,3)] assms(4) match_json_block_removed(2) [OF assms(2)]
  show ?thesis by (simp add: extractResponse_def)
qed

text \<open>The example of the specification.\<close>

theorem extractor_round_trip_witness:
  \<open>match_json_block (js ''Answer.\<newline>```json\<newline>[{"claim":"X","sourceType":"web","sourceName":"N","sourceReference":"http://u"}]\<newline>```'')
     = Some \<lparr> m_index = 8,
              m_whole = js ''```json\<newline>[{"claim":"X","sourceType":"web","sourceName":"N","sourceReference":"http://u"}]\<newline>```'',
              m_group1 = js ''[{"claim":"X","sourceType":"web","sourceName":"N","sourceReference":"http://u"}]'' \<rparr>
   \<and> snd (extractResponse
            \<lparr> resp_text = Some (js ''Answer.\<newline>```json\<newline>[{"claim":"X","sourceType":"web","sourceName":"N","sourceReference":"http://u"}]\<newline>```''),
              candidates = None \<rparr>)
       = \<lparr> res_text = js ''Answer.'',
           res_groundingChunks = [],
           res_evidence =
             [JObject [(js ''claim'', JString (js ''X'')),
                       (js ''sourceType'', JString (js ''web'')),
                       (js ''sourceName'', JString (js ''N'')),
                       (js ''sourceReference'', JString (js ''http://u''))]] \<rparr>\<close>
proof -
  let ?raw = \<open>js ''Answer.\<newline>```json\<newline>[{"claim":"X","sourceType":"web","sourceName":"N","sourceReference":"http://u"}]\<newline>```''\<close>
  let ?m = \<open>\<lparr> m_index = 8,
              m_whole = js ''```json\<newline>[{"claim":"X","sourceType":"web","sourceName":"N","sourceReference":"http://u"}]\<newline>```'',
              m_group1 = js ''[{"claim":"X","sourceType":"web","sourceName":"N","sourceReference":"http://u"}]'' \<rparr>\<close>
  let ?items = "[JObject [(js ''claim'', JString (js ''X'')),
                       (js ''sourceType'', JString (js ''web'')),
                       (js ''sourceName'', JString (js ''N'')),
                       (js ''sourceReference'', JString (js ''http://u''))]]"
  have h1: "match_json_block ?raw = Some ?m"
    by (simp add: eval_defs)
  have h2: "JSON_parse (m_group1 ?m) = Some (JArray ?items)"
    by (simp add: eval_defs)
  have h0: "resp_text \<lparr> resp_text = Some ?raw, candidates = None \<rparr> = Some ?raw" by simp
  have t: "trim (take (m_index ?m) ?raw @ drop (m_index ?m + length (m_whole ?m)) ?raw)
             = js ''Answer.''"
    by (simp add: trim_def js_def is_space_def)
  from extractor_round_trip [OF h0 h1 h2 refl] h1 show ?thesis
    by (simp only: t) (simp add: nativeChunks_def)
qed

text \<open>
  A text may hold a valid block that is not the first one: the first block here does
  not parse, the second holds one well-formed item, and the extractor returns no
  evidence and the text as it was.
\<close>

theorem extractor_round_trip_counterexample:
  \<open>js ''```json\<newline>x\<newline>```\<newline>```json\<newline>[{"claim":"X","sourceType":"web","sourceName":"N","sourceReference":"http://u"}]\<newline>```''
     = js ''```json\<newline>x\<newline>```\<newline>'' @ fence_open @ js ''\<newline>''
       @ js ''[{"claim":"X","sourceType":"web","sourceName":"N","sourceReference":"http://u"}]''
       @ js ''\<newline>'' @ fence_close
   \<and> JSON_parse (js ''[{"claim":"X","sourceType":"web","sourceName":"N","sourceReference":"http://u"}]'')
       = Some (JArray [JObject [(js ''claim'', JString (js ''X'')),
                                (js ''sourceType'', JString (js ''web'')),
                                (js ''sourceName'', JString (js ''N'')),
                                (js ''sourceReference'', JString (js ''http://u''))]])
   \<and> snd (extractResponse
            \<lparr> resp_text = Some (js ''```json\<newline>x\<newline>```\<newline>```json\<newline>[{"claim":"X","sourceType":"web","sourceName":"N","sourceReference":"http://u"}]\<newline>```''),
              candidates = None \<rparr>)
       = \<lparr> res_text = js ''```json\<newline>x\<newline>```\<newline>```json\<newline>[{"claim":"X","sourceType":"web","sourceName":"N","sourceReference":"http://u"}]\<newline>```'',
           res_groundingChunks = [],
           res_evidence = [] \<rparr>\<close>
proof -
  have a: \<open>js ''```json\<newline>x\<newline>```\<newline>```json\<newline>[{"claim":"X","sourceType":"web","sourceName":"N","sourceReference":"http://u"}]\<newline>```''
     = js ''```json\<newline>x\<newline>```\<newline>'' @ fence_open @ js ''\<newline>''
       @ js ''[{"claim":"X","sourceType":"web","sourceName":"N","sourceReference":"http://u"}]''
       @ js ''\<newline>'' @ fence_close\<close>
    by (simp add: js_def fence_open_def fence_close_def)
  have b: \<open>JSON_parse (js ''[{"claim":"X","sourceType":"web","sourceName":"N","sourceReference":"http://u"}]'')
       = Some (JArray [JObject [(js ''claim'', JString (js ''X'')),
                                (js ''sourceType'', JString (js ''web'')),
                                (js ''sourceName'', JString (js ''N'')),
                                (js ''sourceReference'', JString (js ''http://u''))]])\<close>
    by (simp add: eval_defs)
  have m: \<open>match_json_block (js ''```json\<newline>x\<newline>```\<newline>```json\<newline>[{"claim":"X","sourceType":"web","sourceName":"N","sourceReference":"http://u"}]\<newline>```'')
      = Some \<lparr> m_index = 0, m_whole = js ''```json\<newline>x\<newline>```'', m_group1 = js ''x'' \<rparr>\<close>
    by (simp add: eval_defs)
  have p: "JSON_parse (js ''x'') = None"
    by (simp add: eval_defs)
  have c: \<open>snd (extractResponse
            \<lparr> resp_text = Some (js ''```json\<newline>x\<newline>```\<newline>```json\<newline>[{"claim":"X","sourceType":"web","sourceName":"N","sourceReference":"http://u"}]\<newline>```''),
              candidates = None \<rparr>)
       = \<lparr> res_text = js ''```json\<newline>x\<newline>```\<newline>```json\<newline>[{"claim":"X","sourceType":"web","sourceName":"N","sourceReference":"http://u"}]\<newline>```'',
           res_groundingChunks = [],
           res_evidence = [] \<rparr>\<close>
    by (simp add: extractResponse_def extractEvidence_def fullText_of_def nativeChunks_def m p)
       (simp add: js_def)
  from a b c show ?thesis by (intro conjI)
qed

text \<open>
  The content of the block ends at the first closing fence, also when that fence stands
  inside a JSON string: the list below parses, but the block that holds it is cut at
  the inner fence, the cut content does not parse, and nothing is extracted.
\<close>

lemma block_cut_at_inner_fence:
  \<open>JSON_parse (js ''["a```b"]'') = Some (JArray [JString (js ''a```b'')])
   \<and> match_json_block (js ''```json\<newline>["a```b"]\<newline>```'')
       = Some \<lparr> m_index = 0, m_whole = js ''```json\<newline>["a```'', m_group1 = js ''["a'' \<rparr>
   \<and> JSON_parse (js ''["a'') = None
   \<and> snd (extractResponse
            \<lparr> resp_text = Some (js ''```json\<newline>["a```b"]\<newline>```''), candidates = None \<rparr>)
       = \<lparr> res_text = js ''```json\<newline>["a```b"]\<newline>```'',
           res_groundingChunks = [], res_evidence = [] \<rparr>\<close>
proof -
  have a: \<open>JSON_parse (js ''["a```b"]'') = Some (JArray [JString (js ''a```b'')])\<close>
    by (simp add: eval_defs)
  have m: \<open>match_json_block (js ''```json\<newline>["a```b"]\<newline>```'')
       = Some \<lparr> m_index = 0, m_whole = js ''```json\<newline>["a```'', m_group1 = js ''["a'' \<rparr>\<close>
    by (simp add: eval_defs)
  have p: \<open>JSON_parse (js ''["a'') = None\<close>
    by (simp add: eval_defs)
  have c: \<open>snd (extractResponse
            \<lparr> resp_text = Some (js ''```json\<newline>["a```b"]\<newline>```''), candidates = None \<rparr>)
       = \<lparr> res_text = js ''```json\<newline>["a```b"]\<newline>```'',
           res_groundingChunks = [], res_evidence = [] \<rparr>\<close>
    by (simp add: extractResponse_def extractEvidence_def fullText_of_def nativeChunks_def m p)
       (simp add: js_def)
  from a m p c show ?thesis by (intro conjI)
qed

text \<open>
  C2, as amended. For every raw model text: when the fence pattern finds no block, or
  finds one whose content fails to parse as JSON, or parses to a value that is not a
  list, the call returns normally, with empty evidence and the raw text unchanged (the
  unparsed block included); only for the empty raw text the returned text is the
  placeholder of C10 instead.
\<close>

theorem extractor_keeps_text_without_list_block:
  assumes "api (buildRequest p h a md) = Inr r"
    and "resp_text r = Some raw"
    and "match_json_block raw = None
         \<or> (\<exists>m. match_json_block raw = Some m \<and> JSON_parse (m_group1 m) = None)
         \<or> (\<exists>m v. match_json_block raw = Some m \<and> JSON_parse (m_group1 m) = Some v
                   \<and> (\<forall>items. v \<noteq> JArray items))"
  shows "snd (generateResearchResponse api p h a md)
           = Inr \<lparr> res_text = (if raw = [] then js ''No response generated.'' else raw),
                   res_groundingChunks = nativeChunks r,
                   res_evidence = [] \<rparr>"
proof (cases "raw = []")
  case True
  with assms(2) have "extractEvidence (fullText_of (resp_text r)) = ([], no_response, [])"
    by (simp add: fullText_of_def extractEvidence_def no_response_no_block)
  with True assms(1) show ?thesis
    by (simp add: generateResearchResponse_def extractResponse_def no_response_def)
next
  case False
  from assms(3) have "match_json_block raw = None
      \<or> (\<exists>m. match_json_block raw = Some m
             \<and> (\<forall>items. JSON_parse (m_group1 m) \<noteq> Some (JArray items)))"
    by auto
  from extractEvidence_keep [OF this] have "snd (extractEvidence raw) = (raw, [])" .
  moreover from assms(2) False have "fullText_of (resp_text r) = raw"
    by (simp add: fullText_of_def)
  ultimately show ?thesis
    using assms(1) False
    by (cases "extractEvidence raw")
       (simp add: generateResearchResponse_def extractResponse_def)
qed

theorem extractor_keeps_text_without_list_block_witness:
  \<open>match_json_block (js ''Text\<newline>```json\<newline>{oops\<newline>```'')
     = Some \<lparr> m_index = 5, m_whole = js ''```json\<newline>{oops\<newline>```'', m_group1 = js ''{oops'' \<rparr>
   \<and> JSON_parse (js ''{oops'') = None
   \<and> snd (generateResearchResponse
            (answers \<lparr> resp_text = Some (js ''Text\<newline>```json\<newline>{oops\<newline>```''),
                               candidates = None \<rparr>)
            (js ''q'') [] [] Web)
       = Inr \<lparr> res_text = js ''Text\<newline>```json\<newline>{oops\<newline>```'',
               res_groundingChunks = [], res_evidence = [] \<rparr>
   \<and> match_json_block (js ''```json {"a":1} ```'')
     = Some \<lparr> m_index = 0, m_whole = js ''```json {"a":1} ```'', m_group1 = js ''{"a":1}'' \<rparr>
   \<and> JSON_parse (js ''{"a":1}'') = Some (JObject [(js ''a'', JNumber (js ''1''))])
   \<and> snd (generateResearchResponse
            (answers \<lparr> resp_text = Some (js ''```json {"a":1} ```''),
                               candidates = None \<rparr>)
            (js ''q'') [] [] Web)
       = Inr \<lparr> res_text = js ''```json {"a":1} ```'',
               res_groundingChunks = [], res_evidence = [] \<rparr>
   \<and> match_json_block (js ''No block here.'') = None
   \<and> snd (generateResearchResponse
            (answers \<lparr> resp_text = Some (js ''No block here.''),
                               candidates = None \<rparr>)
            (js ''q'') [] [] Web)
       = Inr \<lparr> res_text = js ''No block here.'',
               res_groundingChunks = [], res_evidence = [] \<rparr>\<close>
proof -
  have m1: \<open>match_json_block (js ''Text\<newline>```json\<newline>{oops\<newline>```'')
     = Some \<lparr> m_index = 5, m_whole = js ''```json\<newline>{oops\<newline>```'', m_group1 = js ''{oops'' \<rparr>\<close>
    by (simp add: eval_defs)
  have p1: \<open>JSON_parse (js ''{oops'') = None\<close>
    by (simp add: eval_defs)
  have m2: \<open>match_json_block (js ''```json {"a":1} ```'')
     = Some \<lparr> m_index = 0, m_whole = js ''```json {"a":1} ```'', m_group1 = js ''{"a":1}'' \<rparr>\<close>
    by (simp add: eval_defs)
  have p2: \<open>JSON_parse (js ''{"a":1}'') = Some (JObject [(js ''a'', JNumber (js ''1''))])\<close>
    by (simp add: eval_defs lex_number_def lex_int_def lex_frac_def lex_exp_def)
  have m3: \<open>match_json_block (js ''No block here.'') = None\<close>
    by (simp add: eval_defs)
  have ne: \<open>js ''Text\<newline>```json\<newline>{oops\<newline>```'' \<noteq> []\<close>
    \<open>js ''```json {"a":1} ```'' \<noteq> []\<close> \<open>js ''No block here.'' \<noteq> []\<close>
    by (simp_all add: js_def)
  have c: "nativeChunks \<lparr> resp_text = t, candidates = None \<rparr> = []" for t
    by (simp add: nativeChunks_def)
  let ?R1 = \<open>\<lparr> resp_text = Some (js ''Text\<newline>```json\<newline>{oops\<newline>```''), candidates = None \<rparr>\<close>
  let ?R2 = \<open>\<lparr> resp_text = Some (js ''```json {"a":1} ```''), candidates = None \<rparr>\<close>
  let ?R3 = \<open>\<lparr> resp_text = Some (js ''No block here.''), candidates = None \<rparr>\<close>
  have r1: \<open>snd (generateResearchResponse (answers ?R1)
            (js ''q'') [] [] Web)
       = Inr \<lparr> res_text = js ''Text\<newline>```json\<newline>{oops\<newline>```'',
               res_groundingChunks = [], res_evidence = [] \<rparr>\<close>
    using extractor_keeps_text_without_list_block
      [of "answers ?R1" "js ''q''" "[]" "[]" Web ?R1, OF answers_eq] m1 p1 ne(1)
    by (simp add: c)
  have r2: \<open>snd (generateResearchResponse (answers ?R2)
            (js ''q'') [] [] Web)
       = Inr \<lparr> res_text = js ''```json {"a":1} ```'',
               res_groundingChunks = [], res_evidence = [] \<rparr>\<close>
    using extractor_keeps_text_without_list_block
      [of "answers ?R2" "js ''q''" "[]" "[]" Web ?R2, OF answers_eq] m2 p2 ne(2)
    by (simp add: c)
  have r3: \<open>snd (generateResearchResponse (answers ?R3)
            (js ''q'') [] [] Web)
       = Inr \<lparr> res_text = js ''No block here.'',
               res_groundingChunks = [], res_evidence = [] \<rparr>\<close>
    using extractor_keeps_text_without_list_block
      [of "answers ?R3" "js ''q''" "[]" "[]" Web ?R3, OF answers_eq] m3 ne(3)
    by (simp add: c)
  from m1 p1 r1 m2 p2 r2 m3 r3 show ?thesis by (intro conjI)
qed

text \<open>
  The empty raw text holds no block, and the text returned for it is not the raw
  input.
\<close>

theorem extractor_keeps_text_counterexample:
  "match_json_block [] = None
   \<and> snd (generateResearchResponse
            (answers \<lparr> resp_text = Some [], candidates = None \<rparr>)
            (js ''q'') [] [] Web)
       = Inr \<lparr> res_text = js ''No response generated.'',
               res_groundingChunks = [], res_evidence = [] \<rparr>
   \<and> js ''No response generated.'' \<noteq> []"
  by (simp add: generateResearchResponse_def answers_def extractResponse_def extractEvidence_def
        fullText_of_def nativeChunks_def no_response_no_block)
     (simp add: no_response_def js_def match_json_block_def jsonBlockRegex_def fence_open_def)

text \<open>
  C3, as amended. Let \<open>t\<close> be the text that a first run of the extractor returns.
  A second run on \<open>t\<close> yields no evidence and the text \<open>t\<close> unchanged exactly when
  \<open>t\<close> is not empty and the fence pattern finds in \<open>t\<close> no block whose content
  parses to a JSON list; in particular when \<open>t\<close> is not empty and the opening fence
  occurs nowhere in it. Each run strips only the first block, so a text with a further
  block is changed again.
\<close>

theorem second_run_fixpoint:
  assumes "resp_text r1 = Some raw"
    and "t = res_text (snd (extractResponse r1))"
    and "resp_text r2 = Some t"
  shows "((res_evidence (snd (extractResponse r2)) = [] \<and> res_text (snd (extractResponse r2)) = t)
          \<longleftrightarrow> (t \<noteq> [] \<and> \<not> (\<exists>m items. match_json_block t = Some m
                                     \<and> JSON_parse (m_group1 m) = Some (JArray items))))
         \<and> (t \<noteq> [] \<and> \<not> sublist fence_open t
              \<longrightarrow> res_evidence (snd (extractResponse r2)) = []
                  \<and> res_text (snd (extractResponse r2)) = t)"
proof -
  have exact: "(res_evidence (snd (extractResponse r2)) = []
                 \<and> res_text (snd (extractResponse r2)) = t)
          \<longleftrightarrow> (t \<noteq> [] \<and> \<not> (\<exists>m items. match_json_block t = Some m
                                     \<and> JSON_parse (m_group1 m) = Some (JArray items)))"
  proof (cases "t = []")
    case True
    with assms(3) have "res_text (snd (extractResponse r2)) = no_response"
      by (simp add: extractResponse_def fullText_of_def extractEvidence_def no_response_no_block)
    with True no_response_not_empty show ?thesis by simp
  next
    case False
    with assms(3) have ft: "fullText_of (resp_text r2) = t" by (simp add: fullText_of_def)
    show ?thesis
    proof (cases "\<exists>m items. match_json_block t = Some m
                    \<and> JSON_parse (m_group1 m) = Some (JArray items)")
      case True
      then obtain m items where m: "match_json_block t = Some m"
        and p: "JSON_parse (m_group1 m) = Some (JArray items)"
        by blast
      let ?rest = "take (m_index m) t @ drop (m_index m + length (m_whole m)) t"
      from extractEvidence_strip [OF m p] ft
      have "res_text (snd (extractResponse r2)) = trim ?rest"
        by (simp add: extractResponse_def)
      moreover have "length (trim ?rest) < length t"
      proof -
        from match_json_block_removed(2) [OF m]
        have "length t = length ?rest + length (m_whole m)"
          by (metis length_append add.assoc add.commute)
        with match_json_block_whole_length [OF m] have "length ?rest < length t" by simp
        with length_trim_le [of ?rest] show ?thesis by simp
      qed
      ultimately have "res_text (snd (extractResponse r2)) \<noteq> t" by auto
      with True show ?thesis by blast
    next
      case nostrip: False
      then have "match_json_block t = None
          \<or> (\<exists>m. match_json_block t = Some m
                 \<and> (\<forall>items. JSON_parse (m_group1 m) \<noteq> Some (JArray items)))"
        by (cases "match_json_block t") auto
      from extractEvidence_keep [OF this] ft
      have "res_evidence (snd (extractResponse r2)) = [] \<and> res_text (snd (extractResponse r2)) = t"
        by (cases "extractEvidence t") (simp add: extractResponse_def)
      with False nostrip show ?thesis by blast
    qed
  qed
  moreover have "t \<noteq> [] \<and> \<not> sublist fence_open t
              \<longrightarrow> res_evidence (snd (extractResponse r2)) = []
                  \<and> res_text (snd (extractResponse r2)) = t"
    using exact no_fence_no_block [of t] by auto
  ultimately show ?thesis by blast
qed

theorem second_run_fixpoint_witness:
  \<open>res_text (snd (extractResponse
       \<lparr> resp_text = Some (js ''Answer.\<newline>```json\<newline>[{"claim":"X"}]\<newline>```''), candidates = None \<rparr>))
     = js ''Answer.''
   \<and> match_json_block (js ''Answer.'') = None
   \<and> res_evidence (snd (extractResponse \<lparr> resp_text = Some (js ''Answer.''), candidates = None \<rparr>)) = []
   \<and> res_text (snd (extractResponse \<lparr> resp_text = Some (js ''Answer.''), candidates = None \<rparr>))
     = js ''Answer.''\<close>
proof -
  let ?r1 = \<open>\<lparr> resp_text = Some (js ''Answer.\<newline>```json\<newline>[{"claim":"X"}]\<newline>```''), candidates = None \<rparr>\<close>
  let ?r2 = \<open>\<lparr> resp_text = Some (js ''Answer.''), candidates = None \<rparr>\<close>
  have m: \<open>match_json_block (js ''Answer.\<newline>```json\<newline>[{"claim":"X"}]\<newline>```'')
      = Some \<lparr> m_index = 8, m_whole = js ''```json\<newline>[{"claim":"X"}]\<newline>```'',
               m_group1 = js ''[{"claim":"X"}]'' \<rparr>\<close>
    by (simp add: eval_defs)
  have p: \<open>JSON_parse (js ''[{"claim":"X"}]'')
      = Some (JArray [JObject [(js ''claim'', JString (js ''X''))]])\<close>
    by (simp add: eval_defs)
  have first: "res_text (snd (extractResponse ?r1)) = js ''Answer.''"
    by (simp add: extractResponse_def extractEvidence_def fullText_of_def m p)
       (simp add: js_def replace_first_def trim_def is_space_def)
  have none: "match_json_block (js ''Answer.'') = None"
    by (simp add: eval_defs)
  have ne: "js ''Answer.'' \<noteq> []" by (simp add: js_def)
  have nf: "\<not> sublist fence_open (js ''Answer.'')"
    by (simp add: fence_open_def js_def sublist_Cons_right)
  from second_run_fixpoint [of ?r1 _ "js ''Answer.''" ?r2] first ne nf
  have "res_evidence (snd (extractResponse ?r2)) = []
        \<and> res_text (snd (extractResponse ?r2)) = js ''Answer.''"
    by simp
  with first none show ?thesis by (intro conjI) simp_all
qed

text \<open>
  Two blocks: the first run strips the first one, the second run then reads the
  second one, returns its item and strips it.
\<close>

theorem second_run_counterexample:
  \<open>res_text (snd (extractResponse
       \<lparr> resp_text = Some (js ''```json\<newline>[]\<newline>```\<newline>```json\<newline>[1]\<newline>```''), candidates = None \<rparr>))
     = js ''```json\<newline>[1]\<newline>```''
   \<and> res_evidence (snd (extractResponse
       \<lparr> resp_text = Some (js ''```json\<newline>[1]\<newline>```''), candidates = None \<rparr>))
     = [JNumber (js ''1'')]
   \<and> res_text (snd (extractResponse
       \<lparr> resp_text = Some (js ''```json\<newline>[1]\<newline>```''), candidates = None \<rparr>))
     = []\<close>
proof -
  have m1: \<open>match_json_block (js ''```json\<newline>[]\<newline>```\<newline>```json\<newline>[1]\<newline>```'')
      = Some \<lparr> m_index = 0, m_whole = js ''```json\<newline>[]\<newline>```'', m_group1 = js ''[]'' \<rparr>\<close>
    by (simp add: eval_defs)
  have p1: "JSON_parse (js ''[]'') = Some (JArray [])"
    by (simp add: eval_defs)
  have m2: \<open>match_json_block (js ''```json\<newline>[1]\<newline>```'')
      = Some \<lparr> m_index = 0, m_whole = js ''```json\<newline>[1]\<newline>```'', m_group1 = js ''[1]'' \<rparr>\<close>
    by (simp add: eval_defs)
  have p2: "JSON_parse (js ''[1]'') = Some (JArray [JNumber (js ''1'')])"
    by (simp add: eval_defs lex_number_def lex_int_def lex_frac_def lex_exp_def)
  have a: \<open>res_text (snd (extractResponse
       \<lparr> resp_text = Some (js ''```json\<newline>[]\<newline>```\<newline>```json\<newline>[1]\<newline>```''), candidates = None \<rparr>))
     = js ''```json\<newline>[1]\<newline>```''\<close>
    by (simp add: extractResponse_def extractEvidence_def fullText_of_def m1 p1)
       (simp add: js_def replace_first_def trim_def is_space_def)
  have b: \<open>snd (extractResponse
       \<lparr> resp_text = Some (js ''```json\<newline>[1]\<newline>```''), candidates = None \<rparr>)
     = \<lparr> res_text = [], res_groundingChunks = [], res_evidence = [JNumber (js ''1'')] \<rparr>\<close>
    by (simp add: extractResponse_def extractEvidence_def fullText_of_def nativeChunks_def m2 p2)
       (simp add: js_def replace_first_def trim_def is_space_def)
  from a b show ?thesis by simp
qed

text \<open>
  C10. If the call of the model API succeeds and the response carries no text
  (\<^verbatim>\<open>undefined\<close> or the empty string), the returned text is the literal
  \<^verbatim>\<open>No response generated.\<close> and the returned evidence is empty.
\<close>

theorem no_text_placeholder:
  assumes "api (buildRequest p h a md) = Inr r"
    and "resp_text r = None \<or> resp_text r = Some []"
  shows "generateResearchResponse api p h a md
           = ([], Inr \<lparr> res_text = js ''No response generated.'',
                         res_groundingChunks = nativeChunks r,
                         res_evidence = [] \<rparr>)"
proof -
  from assms(2) have "fullText_of (resp_text r) = no_response"
    by (auto simp: fullText_of_def)
  then have "extractEvidence (fullText_of (resp_text r)) = ([], no_response, [])"
    by (simp add: extractEvidence_def no_response_no_block)
  with assms(1) show ?thesis
    by (simp add: generateResearchResponse_def extractResponse_def no_response_def)
qed

theorem no_text_placeholder_witness:
  "generateResearchResponse
     (answers \<lparr> resp_text = None, candidates = None \<rparr>)
     (js ''q'') [] [] Fast
     = ([], Inr \<lparr> res_text = js ''No response generated.'',
                   res_groundingChunks = [], res_evidence = [] \<rparr>)
   \<and> generateResearchResponse
     (answers \<lparr> resp_text = Some [], candidates = Some [] \<rparr>)
     (js ''q'') [] [] Deep
     = ([], Inr \<lparr> res_text = js ''No response generated.'',
                   res_groundingChunks = [], res_evidence = [] \<rparr>)"
  using no_text_placeholder
      [of "answers \<lparr> resp_text = None, candidates = None \<rparr>" "js ''q''" "[]" "[]" Fast
          "\<lparr> resp_text = None, candidates = None \<rparr>"]
    no_text_placeholder
      [of "answers \<lparr> resp_text = Some [], candidates = Some [] \<rparr>" "js ''q''" "[]" "[]" Deep
          "\<lparr> resp_text = Some [], candidates = Some [] \<rparr>"]
  by (simp add: nativeChunks_def answers_def)

text \<open>
  C9. The extractor returns the grounding chunks of the first candidate's grounding
  metadata as they are when they are present, and the empty list otherwise. A chunk
  without a \<^verbatim>\<open>web\<close> field passes through the extractor; only the interface leaves
  it out, when it renders the links of a turn without evidence.
\<close>

theorem grounding_chunks_pass_through:
  "(candidates r = Some (c # cs) \<and> groundingMetadata c = Some gm
      \<and> groundingChunks gm = Some chunks
      \<longrightarrow> res_groundingChunks (snd (extractResponse r)) = chunks)
   \<and> (candidates r = None \<or> candidates r = Some []
      \<or> (candidates r = Some (c # cs)
          \<and> (groundingMetadata c = None
              \<or> (groundingMetadata c = Some gm \<and> groundingChunks gm = None)))
      \<longrightarrow> res_groundingChunks (snd (extractResponse r)) = [])
   \<and> (msg_groundingChunks msg = Some shown \<and> shown \<noteq> []
      \<and> (msg_evidence msg = None \<or> msg_evidence msg = Some [])
      \<longrightarrow> renderWebSources msg = Some (map web shown)
          \<and> shownLinks msg = List.map_filter web shown)"
proof -
  have g: "res_groundingChunks (snd (extractResponse r)) = nativeChunks r"
    by (cases "extractEvidence (fullText_of (resp_text r))") (simp add: extractResponse_def)
  have el: "(\<lambda>chunk. case web chunk of None \<Rightarrow> None | Some w \<Rightarrow> Some w) = web"
    by (auto split: option.splits)
  have mf: "concat (map (\<lambda>el. case el of None \<Rightarrow> [] | Some w \<Rightarrow> [w]) (map f xs))
              = List.map_filter f xs" for f :: "GroundingChunk \<Rightarrow> WebSource option" and xs
    by (induction xs) (simp_all add: List.map_filter_simps split: option.splits)
  have ui: "msg_groundingChunks msg = Some shown \<and> shown \<noteq> []
      \<and> (msg_evidence msg = None \<or> msg_evidence msg = Some [])
      \<longrightarrow> renderWebSources msg = Some (map web shown)
          \<and> shownLinks msg = List.map_filter web shown"
  proof
    assume h: "msg_groundingChunks msg = Some shown \<and> shown \<noteq> []
      \<and> (msg_evidence msg = None \<or> msg_evidence msg = Some [])"
    then have r: "renderWebSources msg = Some (map web shown)"
      unfolding renderWebSources_def el by auto
    then have "shownLinks msg = List.map_filter web shown"
      unfolding shownLinks_def by (simp only: option.case mf)
    with r show "renderWebSources msg = Some (map web shown)
          \<and> shownLinks msg = List.map_filter web shown" ..
  qed
  show ?thesis
    unfolding g using ui by (auto simp: nativeChunks_def)
qed

theorem grounding_chunks_pass_through_witness:
  "res_groundingChunks (snd (extractResponse
      \<lparr> resp_text = Some (js ''ok''),
        candidates = Some [\<lparr> groundingMetadata = Some \<lparr> groundingChunks =
          Some [\<lparr> web = None \<rparr>,
                \<lparr> web = Some \<lparr> uri = js ''http://u'', title = js ''T'' \<rparr> \<rparr>] \<rparr> \<rparr>] \<rparr>))
     = [\<lparr> web = None \<rparr>, \<lparr> web = Some \<lparr> uri = js ''http://u'', title = js ''T'' \<rparr> \<rparr>]
   \<and> res_groundingChunks (snd (extractResponse
      \<lparr> resp_text = Some (js ''ok''), candidates = Some [\<lparr> groundingMetadata = None \<rparr>] \<rparr>))
     = []
   \<and> shownLinks \<lparr> msg_id = js ''1'', msg_role = Model, msg_text = js ''ok'',
                   msg_attachments = None,
                   msg_groundingChunks =
                     Some [\<lparr> web = None \<rparr>,
                           \<lparr> web = Some \<lparr> uri = js ''http://u'', title = js ''T'' \<rparr> \<rparr>],
                   msg_evidence = Some [], msg_timestamp = 2 \<rparr>
     = [\<lparr> uri = js ''http://u'', title = js ''T'' \<rparr>]"
proof -
  let ?chunks = "[\<lparr> web = None \<rparr>,
                  \<lparr> web = Some \<lparr> uri = js ''http://u'', title = js ''T'' \<rparr> \<rparr>]"
  let ?gm = "\<lparr> groundingChunks = Some ?chunks \<rparr>"
  let ?c = "\<lparr> groundingMetadata = Some ?gm \<rparr>"
  let ?msg = "\<lparr> msg_id = js ''1'', msg_role = Model, msg_text = js ''ok'',
                   msg_attachments = None, msg_groundingChunks = Some ?chunks,
                   msg_evidence = Some [], msg_timestamp = 2 \<rparr>"
  from grounding_chunks_pass_through
    [of "\<lparr> resp_text = Some (js ''ok''), candidates = Some [?c] \<rparr>" ?c "[]" ?gm ?chunks ?msg ?chunks]
  have a: "res_groundingChunks (snd (extractResponse
             \<lparr> resp_text = Some (js ''ok''), candidates = Some [?c] \<rparr>)) = ?chunks"
    and u: "shownLinks ?msg = List.map_filter web ?chunks"
    by simp_all
  from grounding_chunks_pass_through
    [of "\<lparr> resp_text = Some (js ''ok''), candidates = Some [\<lparr> groundingMetadata = None \<rparr>] \<rparr>"
        "\<lparr> groundingMetadata = None \<rparr>" "[]" ?gm ?chunks ?msg ?chunks]
  have b: "res_groundingChunks (snd (extractResponse
      \<lparr> resp_text = Some (js ''ok''), candidates = Some [\<lparr> groundingMetadata = None \<rparr>] \<rparr>)) = []"
    by simp
  from u have "shownLinks ?msg = [\<lparr> uri = js ''http://u'', title = js ''T'' \<rparr>]"
    by (simp add: List.map_filter_simps)
  with a b show ?thesis by blast
qed

section \<open>The prompt assembler\<close>

text \<open>
  C4, as amended. When the current user text is empty or whitespace only and no file
  is attached, the submit handler returns at once: no request is sent to the model
  API, the state of the conversation stays as it is and nothing is logged. No
  validation error is raised or shown; \<^verbatim>\<open>generateResearchResponse\<close> checks nothing
  itself: called with such a text and no attachment, it returns what it extracts from
  the answer of the API.
\<close>

theorem handleSubmit_ignores_empty_submission:
  assumes "trim (input st) = []" and "attachments st = []"
  shows "handleSubmit env api st = (st, [], [])
         \<and> (api' (buildRequest (input st) h (attachments st) md) = Inr r
              \<longrightarrow> snd (generateResearchResponse api' (input st) h (attachments st) md)
                    = Inr (snd (extractResponse r)))"
proof -
  from assms have "handleSubmit env api st = (st, [], [])"
    by (simp add: handleSubmit_def)
  moreover have "api' (buildRequest (input st) h (attachments st) md) = Inr r
              \<longrightarrow> snd (generateResearchResponse api' (input st) h (attachments st) md)
                    = Inr (snd (extractResponse r))"
    by (cases "extractResponse r") (simp add: generateResearchResponse_def)
  ultimately show ?thesis by blast
qed

theorem handleSubmit_ignores_empty_submission_witness:
  "trim (js '' \<newline>  '') = []
   \<and> handleSubmit \<lparr> uuid1 = js ''u1'', now1 = 1, uuid2 = js ''u2'', now2 = 2 \<rparr>
        (answers \<lparr> resp_text = Some (js ''ok''), candidates = None \<rparr>)
        \<lparr> messages = [], input = js '' \<newline>  '', isLoading = False, attachments = [],
          isDarkMode = True, modelMode = Web \<rparr>
     = (\<lparr> messages = [], input = js '' \<newline>  '', isLoading = False, attachments = [],
          isDarkMode = True, modelMode = Web \<rparr>, [], [])
   \<and> snd (generateResearchResponse
            (answers \<lparr> resp_text = Some (js ''ok''), candidates = None \<rparr>)
            (js '' \<newline>  '') [] [] Web)
     = Inr \<lparr> res_text = js ''ok'', res_groundingChunks = [], res_evidence = [] \<rparr>"
proof -
  let ?st = "\<lparr> messages = [], input = js '' \<newline>  '', isLoading = False, attachments = [],
          isDarkMode = True, modelMode = Web \<rparr>"
  let ?r = "\<lparr> resp_text = Some (js ''ok''), candidates = None \<rparr>"
  have t: "trim (js '' \<newline>  '') = []"
    by (simp add: trim_def js_def is_space_def)
  have e: "snd (extractResponse ?r)
             = \<lparr> res_text = js ''ok'', res_groundingChunks = [], res_evidence = [] \<rparr>"
    by (simp add: extractResponse_def extractEvidence_def fullText_of_def nativeChunks_def)
       (simp add: eval_defs)
  from handleSubmit_ignores_empty_submission
    [of ?st "\<lparr> uuid1 = js ''u1'', now1 = 1, uuid2 = js ''u2'', now2 = 2 \<rparr>"
        "answers ?r" "answers ?r" "[]" Web ?r]
    t
  have "handleSubmit \<lparr> uuid1 = js ''u1'', now1 = 1, uuid2 = js ''u2'', now2 = 2 \<rparr>
          (answers ?r) ?st = (?st, [], [])"
    and "snd (generateResearchResponse (answers ?r) (js '' \<newline>  '') [] [] Web)
           = Inr (snd (extractResponse ?r))"
    by (simp_all add: answers_def)
  with t e show ?thesis by simp
qed

text \<open>
  Called with an empty text and no attachment, \<^verbatim>\<open>generateResearchResponse\<close>
  assembles the request, sends it and returns the answer; the handler, for the same
  input, shows no error.
\<close>

theorem empty_submission_counterexample:
  "trim [] = []
   \<and> generateResearchResponse
        (answers \<lparr> resp_text = Some (js ''ok''), candidates = None \<rparr>)
        [] [] [] Fast
     = ([], Inr \<lparr> res_text = js ''ok'', res_groundingChunks = [], res_evidence = [] \<rparr>)
   \<and> contents (buildRequest [] [] [] Fast) = [\<lparr> role = User, parts = [PText []] \<rparr>]
   \<and> handleSubmit \<lparr> uuid1 = js ''u1'', now1 = 1, uuid2 = js ''u2'', now2 = 2 \<rparr>
        (answers \<lparr> resp_text = Some (js ''ok''), candidates = None \<rparr>)
        \<lparr> messages = [], input = [], isLoading = False, attachments = [],
          isDarkMode = True, modelMode = Fast \<rparr>
     = (\<lparr> messages = [], input = [], isLoading = False, attachments = [],
          isDarkMode = True, modelMode = Fast \<rparr>, [], [])"
proof -
  have m: "match_json_block (js ''ok'') = None"
    by (simp add: eval_defs)
  have a: "generateResearchResponse
        (answers \<lparr> resp_text = Some (js ''ok''), candidates = None \<rparr>)
        [] [] [] Fast
     = ([], Inr \<lparr> res_text = js ''ok'', res_groundingChunks = [], res_evidence = [] \<rparr>)"
    by (simp add: generateResearchResponse_def answers_def extractResponse_def extractEvidence_def m
          fullText_of_def nativeChunks_def)
       (simp add: js_def)
  have b: "contents (buildRequest [] [] [] Fast) = [\<lparr> role = User, parts = [PText []] \<rparr>]"
    by (simp add: buildRequest_def historyContents_def currentParts_def)
  have c: "handleSubmit \<lparr> uuid1 = js ''u1'', now1 = 1, uuid2 = js ''u2'', now2 = 2 \<rparr>
        (answers \<lparr> resp_text = Some (js ''ok''), candidates = None \<rparr>)
        \<lparr> messages = [], input = [], isLoading = False, attachments = [],
          isDarkMode = True, modelMode = Fast \<rparr>
     = (\<lparr> messages = [], input = [], isLoading = False, attachments = [],
          isDarkMode = True, modelMode = Fast \<rparr>, [], [])"
    by (simp add: handleSubmit_def trim_def)
  have d: "trim [] = []" by (simp add: trim_def)
  from a b c d show ?thesis by blast
qed

text \<open>
  C5. In every assembled request, mode \<open>Fast\<close> has no tools (search disabled), modes
  \<open>Web\<close> and \<open>Deep\<close> have the search tool, \<open>Deep\<close> selects the model
  \<^verbatim>\<open>gemini-3-pro-preview\<close>, and \<open>Web\<close> and \<open>Fast\<close> select the lighter
  \<^verbatim>\<open>gemini-2.5-flash\<close>.
\<close>

theorem mode_mapping:
  "tools (config (buildRequest p h a Fast)) = None
   \<and> tools (config (buildRequest p h a Web)) = Some [GoogleSearch]
   \<and> tools (config (buildRequest p h a Deep)) = Some [GoogleSearch]
   \<and> model (buildRequest p h a Deep) = js ''gemini-3-pro-preview''
   \<and> model (buildRequest p h a Web) = js ''gemini-2.5-flash''
   \<and> model (buildRequest p h a Fast) = js ''gemini-2.5-flash''
   \<and> model (buildRequest p h a Deep) \<noteq> model (buildRequest p h a Web)"
  by (simp add: buildRequest_def toolsOf_def modelName_def js_def)

text \<open>
  C6. Every attachment of the list contributes a text part that carries its file name,
  immediately followed by its payload part, in the order of the list, and the current
  user text is the final part, also when it is empty. The attachments that
  \<^verbatim>\<open>processFiles\<close> hands over are those of the readable PDF files, in the order of
  the batch, so a file of another MIME type never appears in the request.
\<close>

theorem attachments_in_request:
  "parts (last (contents (buildRequest p h a md)))
     = concat (map (\<lambda>att. [PText (js ''[File Context: '' @ att_name att @ js '']''),
                            PInlineData (att_mimeType att) (att_data att)]) a)
       @ [PText p]
   \<and> snd (processFiles (Some files))
     = map (\<lambda>f. \<lparr> att_name = file_name f, att_mimeType = js ''application/pdf'',
                   att_data = (case file_dataURL f of
                                 None \<Rightarrow> None
                               | Some url \<Rightarrow> at_index (split_on 0x2C url) 1) \<rparr>)
         (filter (\<lambda>f. file_type f = js ''application/pdf'' \<and> file_dataURL f \<noteq> None) files)
   \<and> (\<forall>part \<in> set (parts (last (contents
            (buildRequest p h (snd (processFiles (Some files))) md)))).
        \<forall>mt d. part = PInlineData mt d \<longrightarrow> mt = js ''application/pdf'')"
proof -
  have a: "parts (last (contents (buildRequest p h x md)))
     = concat (map (\<lambda>att. [PText (js ''[File Context: '' @ att_name att @ js '']''),
                            PInlineData (att_mimeType att) (att_data att)]) x)
       @ [PText p]" for x
    by (simp add: buildRequest_def currentParts_def foldl_push_attachment)
  have "snd (processFiles (Some files))
     = map (\<lambda>f. \<lparr> att_name = file_name f, att_mimeType = file_type f,
                   att_data = (case file_dataURL f of
                                 None \<Rightarrow> None
                               | Some url \<Rightarrow> at_index (split_on 0x2C url) 1) \<rparr>)
         (filter (\<lambda>f. file_type f = js ''application/pdf'' \<and> file_dataURL f \<noteq> None) files)"
    by (simp add: processFiles_def foldl_process_file)
  then have b: "snd (processFiles (Some files))
     = map (\<lambda>f. \<lparr> att_name = file_name f, att_mimeType = js ''application/pdf'',
                   att_data = (case file_dataURL f of
                                 None \<Rightarrow> None
                               | Some url \<Rightarrow> at_index (split_on 0x2C url) 1) \<rparr>)
         (filter (\<lambda>f. file_type f = js ''application/pdf'' \<and> file_dataURL f \<noteq> None) files)"
    by (simp cong: map_cong)
  have c: "\<forall>part \<in> set (parts (last (contents
            (buildRequest p h (snd (processFiles (Some files))) md)))).
        \<forall>mt d. part = PInlineData mt d \<longrightarrow> mt = js ''application/pdf''"
    unfolding a b by auto
  from a b c show ?thesis by blast
qed

text \<open>A text file and two PDF files, sent with an empty prompt.\<close>

theorem attachments_in_request_witness:
  "parts (last (contents (buildRequest [] []
      (snd (processFiles (Some
         [\<lparr> file_name = js ''a.txt'', file_type = js ''text/plain'', file_size = 3,
            file_dataURL = Some (js ''data:text/plain;base64,QUJD'') \<rparr>,
          \<lparr> file_name = js ''b.pdf'', file_type = js ''application/pdf'', file_size = 3,
            file_dataURL = Some (js ''data:application/pdf;base64,QUJD'') \<rparr>,
          \<lparr> file_name = js ''c.pdf'', file_type = js ''application/pdf'', file_size = 2,
            file_dataURL = Some (js ''data:application/pdf;base64,REU='') \<rparr>])))
      Fast)))
     = [PText (js ''[File Context: b.pdf]''),
        PInlineData (js ''application/pdf'') (Some (js ''QUJD'')),
        PText (js ''[File Context: c.pdf]''),
        PInlineData (js ''application/pdf'') (Some (js ''REU='')),
        PText []]"
proof -
  let ?files = "[\<lparr> file_name = js ''a.txt'', file_type = js ''text/plain'', file_size = 3,
            file_dataURL = Some (js ''data:text/plain;base64,QUJD'') \<rparr>,
          \<lparr> file_name = js ''b.pdf'', file_type = js ''application/pdf'', file_size = 3,
            file_dataURL = Some (js ''data:application/pdf;base64,QUJD'') \<rparr>,
          \<lparr> file_name = js ''c.pdf'', file_type = js ''application/pdf'', file_size = 2,
            file_dataURL = Some (js ''data:application/pdf;base64,REU='') \<rparr>]"
  from attachments_in_request [of "[]" "[]" _ Fast ?files]
  have atts: "snd (processFiles (Some ?files))
      = [\<lparr> att_name = js ''b.pdf'', att_mimeType = js ''application/pdf'',
           att_data = Some (js ''QUJD'') \<rparr>,
         \<lparr> att_name = js ''c.pdf'', att_mimeType = js ''application/pdf'',
           att_data = Some (js ''REU='') \<rparr>]"
    by (simp add: js_def at_index_def)
  from attachments_in_request [of "[]" "[]" "snd (processFiles (Some ?files))" Fast ?files]
  have "parts (last (contents (buildRequest [] [] (snd (processFiles (Some ?files))) Fast)))
     = concat (map (\<lambda>att. [PText (js ''[File Context: '' @ att_name att @ js '']''),
                            PInlineData (att_mimeType att) (att_data att)])
                (snd (processFiles (Some ?files))))
       @ [PText []]"
    by blast
  then show ?thesis
    unfolding atts by (simp add: js_def)
qed

text \<open>
  C7. The request holds, for each prior turn, its role and one text part with its
  text, followed by the current turn. Two histories with the same roles and texts give
  the same request: the attachments, evidence and grounding chunks of prior turns (and
  their ids and timestamps) are not sent.
\<close>

theorem history_role_and_text_only:
  assumes "map (\<lambda>msg. (msg_role msg, msg_text msg)) h
             = map (\<lambda>msg. (msg_role msg, msg_text msg)) h'"
  shows "contents (buildRequest p h a md)
           = map (\<lambda>msg. \<lparr> role = msg_role msg, parts = [PText (msg_text msg)] \<rparr>) h
             @ [\<lparr> role = User, parts = currentParts p a \<rparr>]
         \<and> buildRequest p h a md = buildRequest p h' a md"
proof -
  have hc: "historyContents x
          = map (\<lambda>(r, t). \<lparr> role = r, parts = [PText t] \<rparr>)
              (map (\<lambda>msg. (msg_role msg, msg_text msg)) x)" for x
    by (simp add: historyContents_def)
  have "historyContents h = historyContents h'"
    unfolding hc using assms by (rule arg_cong)
  then show ?thesis by (simp add: buildRequest_def historyContents_def)
qed

theorem history_role_and_text_only_witness:
  "contents (buildRequest (js ''q'')
      [\<lparr> msg_id = js ''1'', msg_role = Model, msg_text = js ''hello'',
         msg_attachments = Some [\<lparr> att_name = js ''a.pdf'', att_mimeType = js ''application/pdf'',
                                    att_data = Some (js ''QUJD'') \<rparr>],
         msg_groundingChunks = Some [\<lparr> web = None \<rparr>],
         msg_evidence = Some [JNull],
         msg_timestamp = 7 \<rparr>] [] Web)
     = [\<lparr> role = Model, parts = [PText (js ''hello'')] \<rparr>,
        \<lparr> role = User, parts = [PText (js ''q'')] \<rparr>]
   \<and> buildRequest (js ''q'')
      [\<lparr> msg_id = js ''1'', msg_role = Model, msg_text = js ''hello'',
         msg_attachments = Some [\<lparr> att_name = js ''a.pdf'', att_mimeType = js ''application/pdf'',
                                    att_data = Some (js ''QUJD'') \<rparr>],
         msg_groundingChunks = Some [\<lparr> web = None \<rparr>],
         msg_evidence = Some [JNull],
         msg_timestamp = 7 \<rparr>] [] Web
     = buildRequest (js ''q'')
      [\<lparr> msg_id = js ''2'', msg_role = Model, msg_text = js ''hello'',
         msg_attachments = None, msg_groundingChunks = None, msg_evidence = None,
         msg_timestamp = 9 \<rparr>] [] Web"
proof -
  let ?h = "[\<lparr> msg_id = js ''1'', msg_role = Model, msg_text = js ''hello'',
         msg_attachments = Some [\<lparr> att_name = js ''a.pdf'', att_mimeType = js ''application/pdf'',
                                    att_data = Some (js ''QUJD'') \<rparr>],
         msg_groundingChunks = Some [\<lparr> web = None \<rparr>],
         msg_evidence = Some [JNull],
         msg_timestamp = 7 \<rparr>]"
  let ?h' = "[\<lparr> msg_id = js ''2'', msg_role = Model, msg_text = js ''hello'',
         msg_attachments = None, msg_groundingChunks = None, msg_evidence = None,
         msg_timestamp = 9 \<rparr>]"
  have same: "map (\<lambda>msg. (msg_role msg, msg_text msg)) ?h
                = map (\<lambda>msg. (msg_role msg, msg_text msg)) ?h'"
    by simp
  from history_role_and_text_only [OF same, of "js ''q''" "[]" Web]
  have c: "contents (buildRequest (js ''q'') ?h [] Web)
             = map (\<lambda>msg. \<lparr> role = msg_role msg, parts = [PText (msg_text msg)] \<rparr>) ?h
               @ [\<lparr> role = User, parts = currentParts (js ''q'') [] \<rparr>]"
    and e: "buildRequest (js ''q'') ?h [] Web = buildRequest (js ''q'') ?h' [] Web"
    by blast+
  from c have "contents (buildRequest (js ''q'') ?h [] Web)
     = [\<lparr> role = Model, parts = [PText (js ''hello'')] \<rparr>,
        \<lparr> role = User, parts = [PText (js ''q'')] \<rparr>]"
    by (simp add: currentParts_def)
  with e show ?thesis by blast
qed

section \<open>File ingestion\<close>

text \<open>
  C8, as amended. For every batch of files, a file whose type is not
  \<^verbatim>\<open>application/pdf\<close> is dropped without any report or log, no size limit is
  applied (the result does not depend on the sizes), and a PDF file that cannot be read
  is dropped with one error logged that names it, while the other files of the batch
  are still processed: a failure of one file never fails the batch.
\<close>

theorem processFiles_per_file:
  "processFiles (Some files)
     = (map (\<lambda>f. ConsoleError (js ''Failed to process file '' @ file_name f))
          (filter (\<lambda>f. file_type f = js ''application/pdf'' \<and> file_dataURL f = None) files),
        map (\<lambda>f. \<lparr> att_name = file_name f, att_mimeType = file_type f,
                      att_data = (case file_dataURL f of
                                    None \<Rightarrow> None
                                  | Some url \<Rightarrow> at_index (split_on 0x2C url) 1) \<rparr>)
          (filter (\<lambda>f. file_type f = js ''application/pdf'' \<and> file_dataURL f \<noteq> None) files))
   \<and> processFiles (Some (map (\<lambda>f. f \<lparr> file_size := size_of f \<rparr>) files))
     = processFiles (Some files)"
proof -
  have a: "processFiles (Some fs)
     = (map (\<lambda>f. ConsoleError (js ''Failed to process file '' @ file_name f))
          (filter (\<lambda>f. file_type f = js ''application/pdf'' \<and> file_dataURL f = None) fs),
        map (\<lambda>f. \<lparr> att_name = file_name f, att_mimeType = file_type f,
                      att_data = (case file_dataURL f of
                                    None \<Rightarrow> None
                                  | Some url \<Rightarrow> at_index (split_on 0x2C url) 1) \<rparr>)
          (filter (\<lambda>f. file_type f = js ''application/pdf'' \<and> file_dataURL f \<noteq> None) fs))"
    for fs
    by (simp add: processFiles_def foldl_process_file)
  have "processFiles (Some (map (\<lambda>f. f \<lparr> file_size := size_of f \<rparr>) files))
          = processFiles (Some files)"
    unfolding a by (simp add: filter_map comp_def)
  with a show ?thesis by blast
qed

theorem processFiles_per_file_witness:
  "processFiles (Some
     [\<lparr> file_name = js ''a.pdf'', file_type = js ''application/pdf'', file_size = 3,
        file_dataURL = None \<rparr>,
      \<lparr> file_name = js ''b.pdf'', file_type = js ''application/pdf'', file_size = 3,
        file_dataURL = Some (js ''data:application/pdf;base64,QUJD'') \<rparr>])
   = ([ConsoleError (js ''Failed to process file a.pdf'')],
      [\<lparr> att_name = js ''b.pdf'', att_mimeType = js ''application/pdf'',
         att_data = Some (js ''QUJD'') \<rparr>])"
  using processFiles_per_file
    [of "[\<lparr> file_name = js ''a.pdf'', file_type = js ''application/pdf'', file_size = 3,
        file_dataURL = None \<rparr>,
      \<lparr> file_name = js ''b.pdf'', file_type = js ''application/pdf'', file_size = 3,
        file_dataURL = Some (js ''data:application/pdf;base64,QUJD'') \<rparr>]"]
  by (simp add: js_def at_index_def)

text \<open>A file of a rejected type is dropped and nothing is reported for it.\<close>

theorem processFiles_counterexample:
  "processFiles (Some
     [\<lparr> file_name = js ''notes.txt'', file_type = js ''text/plain'', file_size = 5,
        file_dataURL = Some (js ''data:text/plain;base64,aGVsbG8='') \<rparr>])
     = ([], [])"
  by (simp add: processFiles_def process_file_def fileToBase64_def at_index_def js_def)

end
